theory Spec2Isabelle
  imports Complex_Main
begin

section \<open>Trajectory post-processing of \<open>fish_3d/utility.py\<close>\<close>

text \<open>
  The functions of \<open>lib/fish_3d/utility.py\<close> that turn short 3D trajectory fragments
  into stitched trajectories are embedded as HOL functions. numpy arrays are lists,
  Python exceptions are values of a sum type, and loops are folds or recursive
  functions over the ranges the source iterates.
\<close>

section \<open>Filling holes in a validity mask: \<open>fill_hole_1d\<close>\<close>

text \<open>
  \<^verbatim>\<open>
  def fill_hole_1d(binary, size):
      filled = binary.copy().astype(int)
      for s in np.arange(size + 2, 2, -1):
          probe = np.zeros(s)
          probe[0] = 1
          probe[-1] = 1
          for shift in range(0, len(binary) - s + 1):
              if np.array_equal(probe, filled[shift : shift + s]):
                  filled[shift : shift + s] = 1
      return filled.astype(binary.dtype)
  \<close>
  The boolean array is a \<open>bool list\<close>. \<open>probe s\<close> is the probe of length \<open>s\<close>,
  \<open>set_slice\<close> is the slice assignment \<open>filled[shift : shift + s] = 1\<close> (a slice is cut
  at the end of the array), \<open>fill_shift\<close> is the body of the inner loop, \<open>fill_probe\<close> the
  inner loop for one probe length, and \<open>fill_hole_1d\<close> the outer loop over
  \<open>s = size + 2, size + 1, ..., 3\<close> (empty when \<open>size \<le> 0\<close>).
\<close>

definition probe :: "nat \<Rightarrow> bool list" where
  "probe s = (replicate s False)[0 := True, s - 1 := True]"

definition set_slice :: "bool list \<Rightarrow> nat \<Rightarrow> nat \<Rightarrow> bool list" where
  "set_slice filled shift s =
     take shift filled @ replicate (min (shift + s) (length filled) - shift) True
       @ drop (shift + s) filled"

definition fill_shift :: "nat \<Rightarrow> nat \<Rightarrow> bool list \<Rightarrow> bool list" where
  "fill_shift s shift filled =
     (if take s (drop shift filled) = probe s then set_slice filled shift s else filled)"

definition fill_probe :: "nat \<Rightarrow> nat \<Rightarrow> bool list \<Rightarrow> bool list" where
  "fill_probe n s filled = fold (fill_shift s) [0..<n + 1 - s] filled"

definition fill_hole_1d :: "bool list \<Rightarrow> int \<Rightarrow> bool list" where
  "fill_hole_1d binary sz =
     fold (fill_probe (length binary)) (map nat (rev [3..sz + 2])) binary"

subsection \<open>Holes and the specification of the result\<close>

text \<open>
  A hole of \<open>f\<close> is a maximal run of invalid entries with a valid entry on both sides:
  \<open>hole f a b\<close> says that \<open>a\<close> and \<open>b\<close> are valid and everything strictly between them
  (at least one entry) is invalid; its length is \<open>b - a - 1\<close>. \<open>fill_marked f Q\<close> is \<open>f\<close>
  with the holes whose end points are in \<open>Q\<close> made valid.
\<close>

definition hole :: "bool list \<Rightarrow> nat \<Rightarrow> nat \<Rightarrow> bool" where
  "hole f a b \<longleftrightarrow>
     a + 1 < b \<and> b < length f \<and> f ! a \<and> f ! b \<and> (\<forall>k\<in>set [a + 1..<b]. \<not> f ! k)"

definition fill_marked :: "bool list \<Rightarrow> (nat \<times> nat) set \<Rightarrow> bool list" where
  "fill_marked f Q =
     map (\<lambda>i. f ! i \<or> (\<exists>(a, b)\<in>Q. hole f a b \<and> a < i \<and> i < b)) [0..<length f]"

definition short_spans :: "nat \<Rightarrow> int \<Rightarrow> (nat \<times> nat) set" where
  "short_spans n sz = {(a, b). a < b \<and> b < n \<and> int (b - a - 1) \<le> sz}"

lemma hole_iff:
  "hole f a b \<longleftrightarrow>
     a + 1 < b \<and> b < length f \<and> f ! a \<and> f ! b \<and> (\<forall>k. a < k \<and> k < b \<longrightarrow> \<not> f ! k)"
  by (auto simp: hole_def)

lemma hole_short_span:
  "hole f a b \<Longrightarrow> (a, b) \<in> short_spans (length f) sz \<longleftrightarrow> int (b - a - 1) \<le> sz"
  by (simp add: short_spans_def hole_iff)

lemma length_fill_marked [simp]: "length (fill_marked f Q) = length f"
  by (simp add: fill_marked_def)

lemma nth_fill_marked:
  "i < length f \<Longrightarrow>
   fill_marked f Q ! i \<longleftrightarrow> f ! i \<or> (\<exists>(a, b)\<in>Q. hole f a b \<and> a < i \<and> i < b)"
  by (simp add: fill_marked_def)

lemma hole_unique:
  assumes "hole f a b" "hole f a' b'" "a < k" "k < b" "a' < k" "k < b'"
  shows "a = a' \<and> b = b'"
proof -
  have "\<not> a < a'" using assms unfolding hole_iff by (metis less_trans)
  moreover have "\<not> a' < a" using assms unfolding hole_iff by (metis less_trans)
  moreover have "\<not> b < b'" using assms unfolding hole_iff by (metis less_trans)
  moreover have "\<not> b' < b" using assms unfolding hole_iff by (metis less_trans)
  ultimately show ?thesis by simp
qed

lemma hole_fill_marked:
  "hole (fill_marked f Q) a b \<longleftrightarrow> hole f a b \<and> (a, b) \<notin> Q"
proof
  assume h: "hole f a b \<and> (a, b) \<notin> Q"
  then have ab: "a + 1 < b" "b < length f" "f ! a" "f ! b"
    by (simp_all add: hole_iff)
  have "\<not> fill_marked f Q ! k" if k: "a < k" "k < b" for k
  proof -
    have "\<not> f ! k" using h k by (simp add: hole_iff)
    moreover have "\<not> (\<exists>(a', b')\<in>Q. hole f a' b' \<and> a' < k \<and> k < b')"
      using hole_unique [of f a b _ _ k] h k by blast
    ultimately show ?thesis using k ab by (simp add: nth_fill_marked)
  qed
  then show "hole (fill_marked f Q) a b"
    using ab by (simp add: hole_iff nth_fill_marked)
next
  let ?g = "fill_marked f Q"
  assume h: "hole ?g a b"
  then have ab: "a + 1 < b" "b < length f" "?g ! a" "?g ! b"
    and mid: "\<And>k. a < k \<Longrightarrow> k < b \<Longrightarrow> \<not> ?g ! k"
    by (simp_all add: hole_iff)
  have inner: "\<not> (\<exists>(a', b')\<in>Q. hole f a' b' \<and> a' < k \<and> k < b')" and zero: "\<not> f ! k"
    if "a < k" "k < b" for k
    using mid [OF that] that ab by (simp_all add: nth_fill_marked)
  have fa: "f ! a"
  proof (rule ccontr)
    assume "\<not> f ! a"
    then obtain a' b' where q: "(a', b') \<in> Q" "hole f a' b'" "a' < a" "a < b'"
      using ab by (auto simp: nth_fill_marked)
    show False
    proof (cases "a + 1 < b'")
      case True
      then show ?thesis using inner [of "a + 1"] q ab by auto
    next
      case False
      then have "b' = a + 1" using q by simp
      then show ?thesis using zero [of "a + 1"] q ab by (simp add: hole_iff)
    qed
  qed
  have fb: "f ! b"
  proof (rule ccontr)
    assume "\<not> f ! b"
    then obtain a' b' where q: "(a', b') \<in> Q" "hole f a' b'" "a' < b" "b < b'"
      using ab by (auto simp: nth_fill_marked)
    show False
    proof (cases "a' < b - 1")
      case True
      moreover have "a < b - 1" "b - 1 < b" "b - 1 < b'" using ab q by simp_all
      ultimately show ?thesis using inner [of "b - 1"] q by blast
    next
      case False
      then have "a' = b - 1" using q by simp
      moreover have "a < b - 1" "b - 1 < b" using ab by simp_all
      ultimately show ?thesis using zero [of "b - 1"] q by (simp add: hole_iff)
    qed
  qed
  have hf: "hole f a b" using ab fa fb zero by (simp add: hole_iff)
  moreover have "(a, b) \<notin> Q" using inner [of "a + 1"] hf ab by auto
  ultimately show "hole f a b \<and> (a, b) \<notin> Q" by simp
qed


lemma fill_marked_cong:
  assumes "\<And>a b. hole f a b \<Longrightarrow> (a, b) \<in> Q \<longleftrightarrow> (a, b) \<in> Q'"
  shows "fill_marked f Q = fill_marked f Q'"
  unfolding fill_marked_def using assms by (intro map_cong refl) blast

lemma fill_marked_empty: "fill_marked f {} = f"
  by (simp add: fill_marked_def map_nth)

lemma nth_probe: "i < s \<Longrightarrow> probe s ! i \<longleftrightarrow> i = 0 \<or> i = s - 1"
  by (auto simp: probe_def nth_list_update)

lemma length_probe [simp]: "length (probe s) = s"
  by (simp add: probe_def)

lemma probe_match_hole:
  assumes "3 \<le> s" "shift + s \<le> length f"
  shows "take s (drop shift f) = probe s \<longleftrightarrow> hole f shift (shift + s - 1)"
proof
  assume eq: "take s (drop shift f) = probe s"
  have nth: "f ! (shift + i) \<longleftrightarrow> i = 0 \<or> i = s - 1" if "i < s" for i
  proof -
    have "take s (drop shift f) ! i = f ! (shift + i)" using that assms by simp
    then show ?thesis using eq nth_probe [OF that] by simp
  qed
  have "\<not> f ! k" if "shift < k" "k < shift + s - 1" for k
    using nth [of "k - shift"] that by simp
  moreover have "f ! shift" using nth [of 0] assms by simp
  moreover have "f ! (shift + s - 1)" using nth [of "s - 1"] assms by simp
  moreover have "shift + 1 < shift + s - 1" "shift + s - 1 < length f"
    using assms by linarith+
  ultimately show "hole f shift (shift + s - 1)"
    by (simp add: hole_iff)
next
  assume h: "hole f shift (shift + s - 1)"
  show "take s (drop shift f) = probe s"
  proof (rule nth_equalityI)
    show "length (take s (drop shift f)) = length (probe s)" using assms by simp
  next
    fix i assume "i < length (take s (drop shift f))"
    then have i: "i < s" by simp
    have "f ! (shift + i) \<longleftrightarrow> i = 0 \<or> i = s - 1"
    proof (cases "i = 0 \<or> i = s - 1")
      case True
      then show ?thesis using h assms by (auto simp: hole_iff)
    next
      case False
      then have "shift < shift + i" "shift + i < shift + s - 1" using i by linarith+
      then show ?thesis using h False by (simp add: hole_iff)
    qed
    then show "take s (drop shift f) ! i = probe s ! i"
      using i assms nth_probe [OF i] by simp
  qed
qed

lemma length_set_slice [simp]:
  "shift + s \<le> length f \<Longrightarrow> length (set_slice f shift s) = length f"
  by (simp add: set_slice_def)

lemma nth_set_slice:
  assumes "shift + s \<le> length f" "i < length f"
  shows "set_slice f shift s ! i \<longleftrightarrow> f ! i \<or> (shift \<le> i \<and> i < shift + s)"
  using assms by (auto simp: set_slice_def nth_append)

lemma fill_shift_marked:
  assumes "3 \<le> s" "shift + s \<le> length f"
  shows "fill_shift s shift (fill_marked f Q) = fill_marked f (insert (shift, shift + s - 1) Q)"
proof (cases "hole f shift (shift + s - 1) \<and> (shift, shift + s - 1) \<notin> Q")
  case True
  let ?g = "fill_marked f Q" and ?b = "shift + s - 1"
  have m: "take s (drop shift ?g) = probe s"
    using True assms by (simp add: probe_match_hole hole_fill_marked)
  have "set_slice ?g shift s = fill_marked f (insert (shift, ?b) Q)"
  proof (rule nth_equalityI)
    show "length (set_slice ?g shift s) = length (fill_marked f (insert (shift, ?b) Q))"
      using assms by simp
  next
    fix i assume "i < length (set_slice ?g shift s)"
    then have i: "i < length f" using assms by simp
    have ends: "f ! shift" "f ! ?b" using True by (simp_all add: hole_iff)
    have "(shift \<le> i \<and> i < shift + s) \<longleftrightarrow> i = shift \<or> i = ?b \<or> (shift < i \<and> i < ?b)"
      using assms by auto
    then show "set_slice ?g shift s ! i = fill_marked f (insert (shift, ?b) Q) ! i"
      using i assms True ends by (auto simp: nth_set_slice nth_fill_marked)
  qed
  then show ?thesis using m by (simp add: fill_shift_def)
next
  case False
  have "\<not> hole (fill_marked f Q) shift (shift + s - 1)"
    using False by (simp add: hole_fill_marked)
  then have "fill_shift s shift (fill_marked f Q) = fill_marked f Q"
    using assms by (simp add: fill_shift_def probe_match_hole)
  moreover have "fill_marked f Q = fill_marked f (insert (shift, shift + s - 1) Q)"
    using False by (intro fill_marked_cong) auto
  ultimately show ?thesis by simp
qed

lemma fold_fill_shift_marked:
  assumes "3 \<le> s" "\<forall>a\<in>set as. a + s \<le> length f"
  shows "fold (fill_shift s) as (fill_marked f Q)
         = fill_marked f (Q \<union> (\<lambda>a. (a, a + s - 1)) ` set as)"
  using assms(2)
proof (induction as arbitrary: Q)
  case Nil
  then show ?case by simp
next
  case (Cons a as)
  have "fold (fill_shift s) (a # as) (fill_marked f Q)
        = fold (fill_shift s) as (fill_marked f (insert (a, a + s - 1) Q))"
    using Cons.prems assms(1) by (simp add: fill_shift_marked)
  also have "\<dots> = fill_marked f (insert (a, a + s - 1) Q \<union> (\<lambda>a. (a, a + s - 1)) ` set as)"
    using Cons.prems by (intro Cons.IH) simp
  finally show ?case by simp
qed

lemma fill_probe_marked:
  assumes "3 \<le> s"
  shows "fill_probe (length f) s (fill_marked f Q)
         = fill_marked f (Q \<union> {(a, b). b = a + s - 1 \<and> a + s \<le> length f})"
proof -
  have "(\<lambda>a. (a, a + s - 1)) ` set [0..<length f + 1 - s]
        = {(a, b). b = a + s - 1 \<and> a + s \<le> length f}"
    using assms by auto
  moreover have "\<forall>a\<in>set [0..<length f + 1 - s]. a + s \<le> length f"
    by auto
  ultimately show ?thesis
    using fold_fill_shift_marked [OF assms, of "[0..<length f + 1 - s]" f Q]
    by (simp add: fill_probe_def)
qed

lemma fold_fill_probe_marked:
  assumes "\<forall>s\<in>set ss. 3 \<le> s"
  shows "fold (fill_probe (length f)) ss (fill_marked f Q)
         = fill_marked f (Q \<union> {(a, b). \<exists>s\<in>set ss. b = a + s - 1 \<and> a + s \<le> length f})"
  using assms
proof (induction ss arbitrary: Q)
  case Nil
  then show ?case by simp
next
  case (Cons s ss)
  have "fold (fill_probe (length f)) (s # ss) (fill_marked f Q)
        = fold (fill_probe (length f)) ss
            (fill_marked f (Q \<union> {(a, b). b = a + s - 1 \<and> a + s \<le> length f}))"
    using Cons.prems by (simp add: fill_probe_marked)
  also have "\<dots> = fill_marked f ((Q \<union> {(a, b). b = a + s - 1 \<and> a + s \<le> length f})
        \<union> {(a, b). \<exists>s\<in>set ss. b = a + s - 1 \<and> a + s \<le> length f})"
    using Cons.prems by (intro Cons.IH) simp
  also have "\<dots> = fill_marked f (Q \<union> {(a, b). \<exists>s\<in>set (s # ss). b = a + s - 1 \<and> a + s \<le> length f})"
    by (intro arg_cong [where f = "fill_marked f"]) auto
  finally show ?case .
qed

lemma fill_hole_1d_marked:
  "fill_hole_1d f sz = fill_marked f (short_spans (length f) sz)"
proof -
  let ?ss = "map nat (rev [3..sz + 2])"
  have ge: "\<forall>s\<in>set ?ss. 3 \<le> s" by auto
  have "fill_hole_1d f sz = fold (fill_probe (length f)) ?ss (fill_marked f {})"
    by (simp add: fill_hole_1d_def fill_marked_empty)
  also have "\<dots> = fill_marked f ({} \<union> {(a, b). \<exists>s\<in>set ?ss. b = a + s - 1 \<and> a + s \<le> length f})"
    using ge by (rule fold_fill_probe_marked)
  also have "\<dots> = fill_marked f (short_spans (length f) sz)"
  proof (rule fill_marked_cong)
    fix a b assume h: "hole f a b"
    then have ab: "a + 1 < b" "b < length f" by (simp_all add: hole_iff)
    show "(a, b) \<in> {} \<union> {(a, b). \<exists>s\<in>set ?ss. b = a + s - 1 \<and> a + s \<le> length f}
          \<longleftrightarrow> (a, b) \<in> short_spans (length f) sz"
    proof
      assume "(a, b) \<in> {} \<union> {(a, b). \<exists>s\<in>set ?ss. b = a + s - 1 \<and> a + s \<le> length f}"
      then obtain s where "s \<in> set ?ss" "b = a + s - 1" by auto
      then show "(a, b) \<in> short_spans (length f) sz"
        using ab by (auto simp: short_spans_def)
    next
      assume "(a, b) \<in> short_spans (length f) sz"
      then have le: "int (b - a - 1) \<le> sz" unfolding short_spans_def by blast
      have "3 \<le> int (b - a + 1)" "int (b - a + 1) \<le> sz + 2" using le ab by linarith+
      then have "int (b - a + 1) \<in> set [3..sz + 2]" by simp
      then have "nat (int (b - a + 1)) \<in> set ?ss" unfolding set_map set_rev by (rule imageI)
      then have "b - a + 1 \<in> set ?ss" unfolding nat_int .
      moreover have "b = a + (b - a + 1) - 1" "a + (b - a + 1) \<le> length f" using ab by simp_all
      ultimately have "\<exists>s\<in>set ?ss. b = a + s - 1 \<and> a + s \<le> length f"
        by (intro bexI [where x = "b - a + 1"] conjI)
      then show "(a, b) \<in> {} \<union> {(a, b). \<exists>s\<in>set ?ss. b = a + s - 1 \<and> a + s \<le> length f}"
        by simp
    qed
  qed
  finally show ?thesis .
qed

subsection \<open>What \<open>fill_hole_1d\<close> fills\<close>

text \<open>
  Claim C4 says that a hole of length \<open>L\<close> is filled exactly when \<open>L < size\<close>. The probe
  lengths run from \<open>size + 2\<close> down to \<open>3\<close>, and a probe of length \<open>s\<close> matches a hole of
  length \<open>s - 2\<close>, so a hole of length exactly \<open>size\<close> is filled as well: with
  \<open>size = 2\<close> the hole of length 2 in \<open>[1, 0, 0, 1]\<close> is filled. The example in the
  docstring of the source fills a hole of length 2 with \<open>size = 2\<close> in the same way.
\<close>

theorem fill_hole_1d_size_hole_counterexample:
  "hole [True, False, False, True] 0 3
   \<and> \<not> int (3 - 0 - 1) < 2
   \<and> fill_hole_1d [True, False, False, True] 2 = [True, True, True, True]"
  by code_simp

text \<open>
  Claim C4, amended: \<open>fill_hole_1d\<close> keeps the length of the array, and an entry of the
  result is valid exactly when it was valid in the input or lies in a hole (a maximal
  run of invalid entries bounded by valid entries on both sides) of length
  \<open>L \<le> size\<close>. Holes with \<open>L > size\<close>, and invalid runs that touch either end of the
  array, remain invalid.
\<close>

theorem fill_hole_1d_fills_holes_up_to_size:
  "length (fill_hole_1d f sz) = length f \<and>
   (\<forall>i<length f. fill_hole_1d f sz ! i \<longleftrightarrow>
      f ! i \<or> (\<exists>a b. hole f a b \<and> a < i \<and> i < b \<and> int (b - a - 1) \<le> sz))"
proof -
  have "fill_marked f (short_spans (length f) sz) ! i \<longleftrightarrow>
      f ! i \<or> (\<exists>a b. hole f a b \<and> a < i \<and> i < b \<and> int (b - a - 1) \<le> sz)"
    if "i < length f" for i
  proof -
    have "(\<exists>(a, b)\<in>short_spans (length f) sz. hole f a b \<and> a < i \<and> i < b)
          \<longleftrightarrow> (\<exists>a b. hole f a b \<and> a < i \<and> i < b \<and> int (b - a - 1) \<le> sz)"
      using hole_short_span [of f _ _ sz] by (simp add: Bex_def) blast
    then show ?thesis using that by (simp add: nth_fill_marked)
  qed
  then show ?thesis by (simp add: fill_hole_1d_marked)
qed

theorem fill_hole_1d_fills_holes_up_to_size_witness:
  "length (fill_hole_1d [True, False, False, True, False, False, False, True] 2) = 8
   \<and> fill_hole_1d [True, False, False, True, False, False, False, True] 2 ! 1
   \<and> \<not> fill_hole_1d [True, False, False, True, False, False, False, True] 2 ! 5"
proof -
  let ?f = "[True, False, False, True, False, False, False, True]"
  have h: "hole ?f 0 3 \<and> 0 < (1::nat) \<and> (1::nat) < 3 \<and> int (3 - 0 - 1) \<le> 2"
    by code_simp
  have n: "\<not> (\<exists>a b. hole ?f a b \<and> a < 5 \<and> 5 < b \<and> int (b - a - 1) \<le> 2)"
  proof
    assume "\<exists>a b. hole ?f a b \<and> a < 5 \<and> 5 < b \<and> int (b - a - 1) \<le> 2"
    then obtain a b where ab: "hole ?f a b" "a < 5" "5 < b" "int (b - a - 1) \<le> 2"
      by blast
    then have "b < 8" "b \<le> a + 3" by (simp_all add: hole_iff)
    then have "(a, b) \<in> {(3, 6), (4, 6), (4, 7)}" using ab by auto
    then show False using ab(1) by (auto simp: hole_iff)
  qed
  have "\<not> ?f ! 5" by simp
  then show ?thesis
    using fill_hole_1d_fills_holes_up_to_size [of ?f 2] h n by auto
qed

text \<open>
  Claim C9: \<open>fill_hole_1d\<close> is idempotent. The holes left in the result are the holes of
  the input that are longer than \<open>size\<close>, so a second pass finds nothing to fill.
\<close>

theorem fill_hole_1d_idempotent:
  "fill_hole_1d (fill_hole_1d b s) s = fill_hole_1d b s"
proof -
  let ?S = "short_spans (length b) s"
  let ?g = "fill_marked b ?S"
  have "fill_hole_1d ?g s = fill_marked ?g ?S"
    by (simp add: fill_hole_1d_marked)
  also have "\<dots> = fill_marked ?g {}"
    by (rule fill_marked_cong) (simp add: hole_fill_marked)
  also have "\<dots> = ?g"
    by (rule fill_marked_empty)
  finally show ?thesis by (simp add: fill_hole_1d_marked)
qed

section \<open>Fragments with missing positions\<close>

text \<open>
  A fragment is the pair \<open>(positions, error)\<close>: an \<open>(N, 3)\<close> array of coordinates and a
  scalar reprojection error. A coordinate is a float that may be the missing value
  (not-a-number); it is modelled as \<open>real option\<close> with \<open>None\<close> for not-a-number, finite
  floats being taken as the reals they denote. Arithmetic on a missing value gives a
  missing value and every comparison with a missing value is false, as for IEEE
  not-a-number. Exceptions raised by Python or numpy are values of \<open>error\<close>.
\<close>

datatype error = IndexError | ValueError | UnboundLocalError

type_synonym fl = "real option"
type_synonym point = "fl \<times> fl \<times> fl"
type_synonym traj = "point list \<times> real"

definition fl_lt :: "fl \<Rightarrow> real \<Rightarrow> bool" where
  "fl_lt a r = (case a of None \<Rightarrow> False | Some x \<Rightarrow> x < r)"

definition fl_op :: "(real \<Rightarrow> real \<Rightarrow> real) \<Rightarrow> fl \<Rightarrow> fl \<Rightarrow> fl" where
  "fl_op f a b = (case a of None \<Rightarrow> None | Some x \<Rightarrow> (case b of None \<Rightarrow> None | Some y \<Rightarrow> Some (f x y)))"

definition fl_square :: "fl \<Rightarrow> fl" where
  "fl_square a = map_option (\<lambda>x. x * x) a"

definition sq_dist :: "point \<Rightarrow> point \<Rightarrow> fl" where
  "sq_dist p q =
     (case (p, q) of ((x1, y1, z1), (x2, y2, z2)) \<Rightarrow>
        fl_op (+) (fl_op (+) (fl_square (fl_op (-) x1 x2)) (fl_square (fl_op (-) y1 y2)))
          (fl_square (fl_op (-) z1 z2)))"

section \<open>Overlap detection: \<open>get_overlap_pairs\<close>\<close>

text \<open>
  \<^verbatim>\<open>
  def get_overlap_pairs(trajs, num, rtol):
      N, T = len(trajs), len(trajs[0][0])
      overlap_pairs = []
      dist_mat = np.empty((N, N, T))
      rtol_sq = rtol * rtol
      for i, t1 in enumerate(trajs):
          for j, t2 in enumerate(trajs):
              dist_mat[i, j] = np.sum(np.square(t1[0] - t2[0]), axis=1)
      with np.errstate(invalid='ignore'):  # ignore the case like NAN < 5
          adj_mat = np.sum(dist_mat < rtol_sq, axis=2) >= num
      adj_mat = np.triu(adj_mat, k=1)
      return np.array(np.nonzero(adj_mat)).T
  \<close>
  \<open>broadcast_rows\<close> is numpy's broadcasting of the first axis in \<open>t1[0] - t2[0]\<close> (equal
  lengths, or one of them of length one), \<open>assign_row\<close> the assignment of the row of
  squared distances into \<open>dist_mat[i, j]\<close> of length \<open>T\<close>; both raise \<open>ValueError\<close> on
  shapes that do not fit. \<open>collect\<close> runs a list of computations and stops at the first
  error. \<open>triu1\<close> is \<open>np.triu(_, k=1)\<close> and \<open>nonzero2\<close> is \<open>np.nonzero\<close> on a matrix,
  which lists the index pairs in row-major order. \<open>trajs[0]\<close> raises \<open>IndexError\<close> on an
  empty list.
\<close>

definition broadcast_rows :: "'a list \<Rightarrow> 'a list \<Rightarrow> error + ('a \<times> 'a) list" where
  "broadcast_rows a b =
     (if length a = length b then Inr (zip a b)
      else if length a = 1 then Inr (map (\<lambda>y. (hd a, y)) b)
      else if length b = 1 then Inr (map (\<lambda>x. (x, hd b)) a)
      else Inl ValueError)"

definition assign_row :: "nat \<Rightarrow> 'a list \<Rightarrow> error + 'a list" where
  "assign_row T v =
     (if length v = T then Inr v
      else if length v = 1 then Inr (replicate T (hd v))
      else Inl ValueError)"

fun collect :: "(error + 'a) list \<Rightarrow> error + 'a list" where
  "collect [] = Inr []"
| "collect (r # rs) =
     (case r of Inl e \<Rightarrow> Inl e
      | Inr x \<Rightarrow> (case collect rs of Inl e \<Rightarrow> Inl e | Inr xs \<Rightarrow> Inr (x # xs)))"

definition dist_row :: "nat \<Rightarrow> point list \<Rightarrow> point list \<Rightarrow> error + fl list" where
  "dist_row T a b =
     (case broadcast_rows a b of Inl e \<Rightarrow> Inl e
      | Inr rows \<Rightarrow> assign_row T (map (\<lambda>(p, q). sq_dist p q) rows))"

definition nonzero2 :: "bool list list \<Rightarrow> (nat \<times> nat) list" where
  "nonzero2 m = concat (map (\<lambda>i. map (\<lambda>j. (i, j)) (filter (\<lambda>j. m ! i ! j) [0..<length (m ! i)])) [0..<length m])"

definition triu1 :: "bool list list \<Rightarrow> bool list list" where
  "triu1 m = map (\<lambda>i. map (\<lambda>j. m ! i ! j \<and> i + 1 \<le> j) [0..<length (m ! i)]) [0..<length m]"

definition get_overlap_pairs :: "traj list \<Rightarrow> int \<Rightarrow> real \<Rightarrow> error + (nat \<times> nat) list" where
  "get_overlap_pairs trajs num rtol =
     (case trajs of [] \<Rightarrow> Inl IndexError
      | t0 # _ \<Rightarrow>
          (let T = length (fst t0); rtol_sq = rtol * rtol in
           case collect (map (\<lambda>t1. collect (map (\<lambda>t2. dist_row T (fst t1) (fst t2)) trajs)) trajs) of
             Inl e \<Rightarrow> Inl e
           | Inr dist_mat \<Rightarrow>
               (let adj_mat = map (map (\<lambda>d. num \<le> int (length (filter (\<lambda>x. fl_lt x rtol_sq) d)))) dist_mat
                in Inr (nonzero2 (triu1 adj_mat)))))"

subsection \<open>The specification of overlap\<close>

text \<open>
  The specification counts the offsets at which both positions are present and their
  Euclidean distance is below \<open>rtol\<close>. \<open>coords\<close> reads a position with no missing
  coordinate, \<open>euclid\<close> is the Euclidean distance, \<open>overlapping_at\<close> the test at one
  offset and \<open>overlap_count\<close> the number of offsets that pass it.
\<close>

definition coords :: "point \<Rightarrow> (real \<times> real \<times> real) option" where
  "coords p = (case p of (Some x, Some y, Some z) \<Rightarrow> Some (x, y, z) | _ \<Rightarrow> None)"

definition euclid :: "real \<times> real \<times> real \<Rightarrow> real \<times> real \<times> real \<Rightarrow> real" where
  "euclid a b =
     (case (a, b) of ((x1, y1, z1), (x2, y2, z2)) \<Rightarrow>
        sqrt ((x1 - x2)\<^sup>2 + (y1 - y2)\<^sup>2 + (z1 - z2)\<^sup>2))"

definition overlapping_at :: "real \<Rightarrow> point \<Rightarrow> point \<Rightarrow> bool" where
  "overlapping_at rtol p q =
     (case (coords p, coords q) of (Some a, Some b) \<Rightarrow> euclid a b < rtol | _ \<Rightarrow> False)"

definition overlap_count :: "real \<Rightarrow> traj \<Rightarrow> traj \<Rightarrow> nat" where
  "overlap_count rtol t1 t2 =
     length (filter (\<lambda>(p, q). overlapping_at rtol p q) (zip (fst t1) (fst t2)))"

lemma sqrt_less_tol:
  assumes "0 \<le> (r::real)"
  shows "sqrt s < r \<longleftrightarrow> s < r * r"
proof -
  have "sqrt (r * r) = r" using assms by simp
  then show ?thesis using real_sqrt_less_iff [of s "r * r"] by simp
qed

lemma sq_dist_overlapping:
  assumes "0 \<le> rtol"
  shows "fl_lt (sq_dist p q) (rtol * rtol) \<longleftrightarrow> overlapping_at rtol p q"
proof (cases "coords p")
  case None
  then show ?thesis
    by (auto simp: fl_lt_def sq_dist_def fl_op_def fl_square_def overlapping_at_def coords_def
        split: prod.splits option.splits)
next
  case p: (Some a)
  show ?thesis
  proof (cases "coords q")
    case None
    then show ?thesis
      by (auto simp: fl_lt_def sq_dist_def fl_op_def fl_square_def overlapping_at_def coords_def
          split: prod.splits option.splits)
  next
    case q: (Some b)
    obtain x1 y1 z1 where a: "a = (x1, y1, z1)" by (cases a)
    obtain x2 y2 z2 where b: "b = (x2, y2, z2)" by (cases b)
    have pp: "p = (Some x1, Some y1, Some z1)" using p a
      by (auto simp: coords_def split: prod.splits option.splits)
    have qq: "q = (Some x2, Some y2, Some z2)" using q b
      by (auto simp: coords_def split: prod.splits option.splits)
    show ?thesis
      using sqrt_less_tol [OF assms]
      by (simp add: pp qq fl_lt_def sq_dist_def fl_op_def fl_square_def overlapping_at_def
          coords_def euclid_def power2_eq_square)
  qed
qed

lemma collect_Inr: "collect (map (\<lambda>x. Inr (f x)) xs) = Inr (map f xs)"
  by (induction xs) simp_all

lemma dist_row_same_length:
  assumes "length a = T" "length b = T"
  shows "dist_row T a b = Inr (map (\<lambda>(p, q). sq_dist p q) (zip a b))"
  using assms by (simp add: dist_row_def broadcast_rows_def assign_row_def)

lemma set_nonzero2:
  "set (nonzero2 m) = {(i, j). i < length m \<and> j < length (m ! i) \<and> m ! i ! j}"
  by (auto simp: nonzero2_def)

lemma distinct_pair_rows:
  assumes "distinct xs" "\<And>i. distinct (f i)"
  shows "distinct (concat (map (\<lambda>i. map (\<lambda>j. (i, j)) (f i)) xs))"
  using assms(1)
proof (induction xs)
  case Nil
  then show ?case by simp
next
  case (Cons x xs)
  have "distinct (map (\<lambda>j. (x, j)) (f x))"
    using assms(2) by (simp add: distinct_map inj_on_def)
  moreover have "set (map (\<lambda>j. (x, j)) (f x)) \<inter> set (concat (map (\<lambda>i. map (\<lambda>j. (i, j)) (f i)) xs)) = {}"
    using Cons.prems by auto
  ultimately show ?case using Cons by simp
qed

lemma distinct_nonzero2: "distinct (nonzero2 m)"
  unfolding nonzero2_def by (rule distinct_pair_rows) simp_all

lemma get_overlap_pairs_characterised:
  assumes "trajs \<noteq> []" and "\<forall>t\<in>set trajs. length (fst t) = T" and "0 \<le> rtol"
  shows "\<exists>ps. get_overlap_pairs trajs num rtol = Inr ps \<and> distinct ps \<and>
           set ps = {(i, j). i < j \<and> j < length trajs \<and>
                       num \<le> int (overlap_count rtol (trajs ! i) (trajs ! j))}"
proof -
  obtain t0 ts where tr: "trajs = t0 # ts" using assms(1) by (cases trajs) auto
  have T: "length (fst t0) = T" using assms(2) tr by simp
  let ?row = "\<lambda>t1 t2. map (\<lambda>(p, q). sq_dist p q) (zip (fst t1) (fst t2))"
  let ?adj = "\<lambda>t1 t2. num \<le> int (length (filter (\<lambda>x. fl_lt x (rtol * rtol)) (?row t1 t2)))"
  have rows: "map (\<lambda>t2. dist_row T (fst t1) (fst t2)) trajs = map (\<lambda>t2. Inr (?row t1 t2)) trajs"
    if "t1 \<in> set trajs" for t1
    using that assms(2) by (intro map_cong refl) (simp add: dist_row_same_length)
  have "map (\<lambda>t1. collect (map (\<lambda>t2. dist_row T (fst t1) (fst t2)) trajs)) trajs
        = map (\<lambda>t1. Inr (map (?row t1) trajs)) trajs"
    by (intro map_cong refl) (simp add: rows collect_Inr)
  then have dm: "collect (map (\<lambda>t1. collect (map (\<lambda>t2. dist_row T (fst t1) (fst t2)) trajs)) trajs)
        = Inr (map (\<lambda>t1. map (?row t1) trajs) trajs)"
    by (simp only: collect_Inr)
  let ?m = "triu1 (map (map (\<lambda>d. num \<le> int (length (filter (\<lambda>x. fl_lt x (rtol * rtol)) d))))
              (map (\<lambda>t1. map (?row t1) trajs) trajs))"
  have res: "get_overlap_pairs trajs num rtol = Inr (nonzero2 ?m)"
    using dm T unfolding get_overlap_pairs_def tr [symmetric]
    by (simp add: tr Let_def del: collect.simps)
  have cnt: "length (filter ((\<lambda>x. fl_lt x (rtol * rtol)) \<circ> (\<lambda>(p, q). sq_dist p q))
                 (zip (fst t1) (fst t2))) = overlap_count rtol t1 t2"
    for t1 t2
    by (simp add: overlap_count_def o_def split_def sq_dist_overlapping [OF assms(3)])
  have "set (nonzero2 ?m) = {(i, j). i < j \<and> j < length trajs \<and>
                       num \<le> int (overlap_count rtol (trajs ! i) (trajs ! j))}"
    by (auto simp: set_nonzero2 triu1_def cnt)
  then show ?thesis using res distinct_nonzero2 by simp
qed

text \<open>
  Claim C8: for a non-empty list of fragments on a common time axis of length \<open>T\<close> and a
  tolerance \<open>rtol \<ge> 0\<close>, \<open>get_overlap_pairs\<close> returns (without error) a list with no
  repetition whose elements are exactly the pairs \<open>(i, j)\<close> with \<open>i < j\<close> for which the
  number of offsets where both positions are present and closer than \<open>rtol\<close> is at
  least \<open>num\<close>. The source compares squared distances with \<open>rtol * rtol\<close>, which agrees
  with comparing distances with \<open>rtol\<close> because a tolerance is not negative.
\<close>

theorem get_overlap_pairs_exact:
  assumes "trajs \<noteq> []" and "\<forall>t\<in>set trajs. length (fst t) = T" and "0 \<le> rtol"
  shows "\<exists>ps. get_overlap_pairs trajs num rtol = Inr ps \<and> distinct ps \<and>
           set ps = {(i, j). i < j \<and> j < length trajs \<and>
                       num \<le> int (overlap_count rtol (trajs ! i) (trajs ! j))}"
  using assms by (rule get_overlap_pairs_characterised)

theorem get_overlap_pairs_exact_witness:
  "get_overlap_pairs
      [([(Some 0, Some 0, Some 0), (Some 1, Some 0, Some 0), (None, None, None)], 1),
       ([(Some 0, Some 0, Some (1 / 2)), (Some 1, Some 0, Some 0), (None, None, None)], 2),
       ([(Some 10, Some 0, Some 0), (Some 10, Some 0, Some 0), (Some 10, Some 0, Some 0)], 3)]
      2 1 = Inr [(0, 1)]
   \<and> 2 \<le> int (overlap_count 1
        ([(Some 0, Some 0, Some 0), (Some 1, Some 0, Some 0), (None, None, None)], 1)
        ([(Some 0, Some 0, Some (1 / 2)), (Some 1, Some 0, Some 0), (None, None, None)], 2))
   \<and> \<not> 2 \<le> int (overlap_count 1
        ([(Some 0, Some 0, Some 0), (Some 1, Some 0, Some 0), (None, None, None)], 1)
        ([(Some 10, Some 0, Some 0), (Some 10, Some 0, Some 0), (Some 10, Some 0, Some 0)], 3))"
proof -
  let ?A = "([(Some 0, Some 0, Some 0), (Some 1, Some 0, Some 0), (None, None, None)], 1) :: traj"
  let ?B = "([(Some 0, Some 0, Some (1 / 2)), (Some 1, Some 0, Some 0), (None, None, None)], 2) :: traj"
  let ?C = "([(Some 10, Some 0, Some 0), (Some 10, Some 0, Some 0), (Some 10, Some 0, Some 0)], 3) :: traj"
  let ?X = "[?A, ?B, ?C]"
  have "?X \<noteq> []" "\<forall>t\<in>set ?X. length (fst t) = 3" "(0::real) \<le> 1"
    by simp_all
  from get_overlap_pairs_exact [OF this, of 2]
  obtain ps where ps: "get_overlap_pairs ?X 2 1 = Inr ps"
    and S: "set ps = {(i, j). i < j \<and> j < length ?X \<and>
                       2 \<le> int (overlap_count 1 (?X ! i) (?X ! j))}"
    by blast
  have val: "get_overlap_pairs ?X 2 1 = Inr [(0, 1)]"
    by code_simp
  then have "ps = [(0, 1)]" using ps by simp
  then have "(0, 1) \<in> set ps" "(0, 2) \<notin> set ps" by simp_all
  then have "2 \<le> int (overlap_count 1 (?X ! 0) (?X ! 1))"
    and "\<not> 2 \<le> int (overlap_count 1 (?X ! 0) (?X ! 2))"
    unfolding S by simp_all
  then show ?thesis using val by simp
qed

lemma get_overlap_pairs_in_range:
  assumes "trajs \<noteq> []" and "\<forall>t\<in>set trajs. length (fst t) = T" and "0 \<le> rtol"
  shows "\<exists>ps. get_overlap_pairs trajs num rtol = Inr ps \<and>
           (\<forall>(i, j)\<in>set ps. i < length trajs \<and> j < length trajs)"
  using get_overlap_pairs_characterised [OF assms, of num] by auto

section \<open>Tank filter: \<open>get_valid_ctraj\<close>\<close>

text \<open>
  \<^verbatim>\<open>
  def get_valid_ctraj(trajectories, z_min, z_max):
      valid_trajectories = []
      is_valid = True
      for t in trajectories:
          z = t[0].T[-1]
          z = z[~np.isnan(z)]
          is_valid *= (z < z_max).all()  # all fish under water
          is_valid *= (z > z_min).all()  # all fish in the tank
          is_valid *= len(z) > 1
          if is_valid:
              valid_trajectories.append(t)
      return valid_trajectories
  \<close>
  The loop carries the list built so far and the flag \<open>is_valid\<close>, which is set once
  before the loop; \<open>get_valid_step\<close> is the loop body on that state.
\<close>

definition get_valid_step :: "real \<Rightarrow> real \<Rightarrow> traj \<Rightarrow> traj list \<times> bool \<Rightarrow> traj list \<times> bool" where
  "get_valid_step z_min z_max t st =
     (case st of (valid_trajectories, is_valid) \<Rightarrow>
        (let z = map (\<lambda>(x, y, z). z) (fst t);
             z = concat (map (\<lambda>v. case v of None \<Rightarrow> [] | Some r \<Rightarrow> [r]) z);
             is_valid = (is_valid \<and> list_all (\<lambda>r. r < z_max) z);
             is_valid = (is_valid \<and> list_all (\<lambda>r. r > z_min) z);
             is_valid = (is_valid \<and> length z > 1)
         in (if is_valid then valid_trajectories @ [t] else valid_trajectories, is_valid)))"

definition get_valid_ctraj :: "traj list \<Rightarrow> real \<Rightarrow> real \<Rightarrow> traj list" where
  "get_valid_ctraj trajectories z_min z_max =
     fst (fold (get_valid_step z_min z_max) trajectories ([], True))"


text \<open>
  The test the specification describes for one fragment: \<open>valid_z\<close> are the non-missing
  z-coordinates, \<open>inside_tank\<close> says that none of them leaves \<open>[z_min, z_max]\<close> and that
  there are at least two of them. \<open>strictly_inside_tank\<close> is the same test with the
  strict comparisons of the source.
\<close>

definition valid_z :: "traj \<Rightarrow> real list" where
  "valid_z t = concat (map (\<lambda>(x, y, z). case z of None \<Rightarrow> [] | Some r \<Rightarrow> [r]) (fst t))"

definition inside_tank :: "real \<Rightarrow> real \<Rightarrow> traj \<Rightarrow> bool" where
  "inside_tank z_min z_max t \<longleftrightarrow>
     list_all (\<lambda>r. z_min \<le> r \<and> r \<le> z_max) (valid_z t) \<and> 1 < length (valid_z t)"

definition strictly_inside_tank :: "real \<Rightarrow> real \<Rightarrow> traj \<Rightarrow> bool" where
  "strictly_inside_tank z_min z_max t \<longleftrightarrow>
     list_all (\<lambda>r. z_min < r \<and> r < z_max) (valid_z t) \<and> 1 < length (valid_z t)"

lemma get_valid_step_eq:
  "get_valid_step z_min z_max t (acc, ok) =
     (if ok \<and> strictly_inside_tank z_min z_max t then (acc @ [t], True) else (acc, False))"
proof -
  have eq: "concat (map (\<lambda>v. case v of None \<Rightarrow> [] | Some r \<Rightarrow> [r]) (map (\<lambda>(x, y, z). z) (fst t))) = valid_z t"
    by (simp add: valid_z_def o_def split_def)
  have "list_all (\<lambda>r. r < z_max) zs \<and> list_all (\<lambda>r. r > z_min) zs
        \<longleftrightarrow> list_all (\<lambda>r. z_min < r \<and> r < z_max) zs" for zs
    by (auto simp: list_all_iff)
  then show ?thesis
    unfolding get_valid_step_def Let_def prod.case eq strictly_inside_tank_def by auto
qed

lemma fold_get_valid_step:
  "fold (get_valid_step z_min z_max) ts (acc, ok) =
     (if ok then (acc @ takeWhile (strictly_inside_tank z_min z_max) ts,
                  list_all (strictly_inside_tank z_min z_max) ts)
      else (acc, False))"
  by (induction ts arbitrary: acc ok) (simp_all add: get_valid_step_eq)

lemma get_valid_ctraj_takeWhile:
  "get_valid_ctraj ts z_min z_max = takeWhile (strictly_inside_tank z_min z_max) ts"
  by (simp add: get_valid_ctraj_def fold_get_valid_step)

text \<open>
  Claim C3 says that a fragment is kept exactly when it passes the test, whatever the
  other fragments are. The flag \<open>is_valid\<close> is never set back to true, so once one
  fragment fails every later fragment is discarded (\<open>get_valid_ctraj_takeWhile\<close>). A
  fragment that lies inside the tank is kept when it is alone, and discarded when it
  comes after a fragment that leaves the tank.
\<close>

theorem get_valid_ctraj_discards_after_invalid:
  "inside_tank 0 10 ([(Some 0, Some 0, Some 5), (Some 0, Some 0, Some 6)], 1)
   \<and> \<not> inside_tank 0 10 ([(Some 0, Some 0, Some 20), (Some 0, Some 0, Some 6)], 1)
   \<and> get_valid_ctraj [([(Some 0, Some 0, Some 5), (Some 0, Some 0, Some 6)], 1)] 0 10
       = [([(Some 0, Some 0, Some 5), (Some 0, Some 0, Some 6)], 1)]
   \<and> get_valid_ctraj [([(Some 0, Some 0, Some 20), (Some 0, Some 0, Some 6)], 1),
                       ([(Some 0, Some 0, Some 5), (Some 0, Some 0, Some 6)], 1)] 0 10 = []"
  by code_simp

section \<open>Removing spatial overlap within a batch: \<open>remove_spatial_overlap\<close>\<close>

text \<open>
  \<^verbatim>\<open>
  def remove_spatial_overlap(trajectories, ntol, rtol):
      trajs_filtered = []
      for t in trajectories:
          not_nan = np.logical_not(np.isnan(t[0].T[0]))
          if np.sum(not_nan) > 1:
              trajs_filtered.append(t)
      if len(trajs_filtered) == 0:
          return []
      op = get_overlap_pairs(trajs_filtered, ntol, rtol)
      jop = join_pairs(op)
      if len(jop) == 0:
          return trajs_filtered
      else:
          trajs_opt = []
          not_unique = np.hstack(jop).ravel()
          unique = np.setdiff1d(np.arange(len(trajs_filtered)), not_unique)
          for i in unique:
              trajs_opt.append(trajs_filtered[i])
          for p in jop:
              best_idx = np.argmin([trajs_filtered[idx][1] for idx in p])
              chosen_traj = trajs_filtered[p[best_idx]]
              trajs_opt.append(chosen_traj)
          return trajs_opt
  \<close>
  \<open>argmin\<close> is \<open>np.argmin\<close>: the first index of a least element, \<open>ValueError\<close> on an
  empty sequence. \<open>enough_samples\<close> is the test \<open>np.sum(not_nan) > 1\<close> on the first
  coordinate. \<open>choose_best\<close> is the body of the loop over \<open>jop\<close>; reading
  \<open>trajs_filtered[idx]\<close> out of range raises \<open>IndexError\<close>. \<open>np.setdiff1d\<close> gives the
  indices outside every group in increasing order.

  \<open>join_pairs\<close> is imported from the compiled module \<open>cutility\<close>, whose source is not
  part of the Python sources; \<open>remove_spatial_overlap\<close> takes it as a parameter.
\<close>

definition argmin :: "real list \<Rightarrow> error + nat" where
  "argmin xs =
     (if xs = [] then Inl ValueError
      else Inr (hd (filter (\<lambda>i. list_all (\<lambda>y. xs ! i \<le> y) xs) [0..<length xs])))"

definition enough_samples :: "traj \<Rightarrow> bool" where
  "enough_samples t \<longleftrightarrow> 1 < length (filter (\<lambda>(x, y, z). x \<noteq> None) (fst t))"

definition choose_best :: "traj list \<Rightarrow> nat list \<Rightarrow> error + traj" where
  "choose_best trajs_filtered p =
     (case collect (map (\<lambda>idx. if idx < length trajs_filtered
                                then Inr (snd (trajs_filtered ! idx)) else Inl IndexError) p) of
        Inl e \<Rightarrow> Inl e
      | Inr errs \<Rightarrow>
          (case argmin errs of
             Inl e \<Rightarrow> Inl e
           | Inr best_idx \<Rightarrow> Inr (trajs_filtered ! (p ! best_idx))))"

definition remove_spatial_overlap ::
  "((nat \<times> nat) list \<Rightarrow> nat list list) \<Rightarrow> traj list \<Rightarrow> int \<Rightarrow> real \<Rightarrow> error + traj list" where
  "remove_spatial_overlap join_pairs trajectories ntol rtol =
     (let trajs_filtered = filter enough_samples trajectories in
      if trajs_filtered = [] then Inr []
      else
        (case get_overlap_pairs trajs_filtered ntol rtol of
           Inl e \<Rightarrow> Inl e
         | Inr op \<Rightarrow>
             (let jop = join_pairs op in
              if jop = [] then Inr trajs_filtered
              else
                (let not_unique = concat jop;
                     unique = filter (\<lambda>i. i \<notin> set not_unique) [0..<length trajs_filtered];
                     trajs_opt = map (\<lambda>i. trajs_filtered ! i) unique
                 in case collect (map (choose_best trajs_filtered) jop) of
                      Inl e \<Rightarrow> Inl e
                    | Inr chosen \<Rightarrow> Inr (trajs_opt @ chosen)))))"

text \<open>
  What is assumed of \<open>join_pairs\<close>: every group it returns is non-empty and consists of
  indices that occur in the pairs it was given (\<open>joins_pairs\<close>). \<open>overlap_groups\<close> names
  the groups that \<open>remove_spatial_overlap\<close> computes for the filtered trajectories.
\<close>

definition overlap_groups ::
  "((nat \<times> nat) list \<Rightarrow> nat list list) \<Rightarrow> traj list \<Rightarrow> int \<Rightarrow> real \<Rightarrow> nat list list" where
  "overlap_groups join_pairs trajs_filtered ntol rtol =
     (case get_overlap_pairs trajs_filtered ntol rtol of
        Inl e \<Rightarrow> []
      | Inr op \<Rightarrow> join_pairs op)"

definition joins_pairs :: "((nat \<times> nat) list \<Rightarrow> nat list list) \<Rightarrow> bool" where
  "joins_pairs join_pairs \<longleftrightarrow>
     (\<forall>pairs. \<forall>g\<in>set (join_pairs pairs).
        g \<noteq> [] \<and> (\<forall>i\<in>set g. \<exists>(a, b)\<in>set pairs. i = a \<or> i = b))"

text \<open>
  Modelled from the spec: \<open>join_pairs\<close> of the module \<open>cutility\<close> is missing from the
  sources. The specification calls its result the connected groups formed by joining
  the overlap pairs; \<open>join_pairs_ref\<close> computes them by merging, for each pair, the groups
  that contain one of its two indices. It serves as a concrete instance of the
  parameter.
\<close>

definition join_step :: "nat \<times> nat \<Rightarrow> nat list list \<Rightarrow> nat list list" where
  "join_step pr groups =
     (case pr of (a, b) \<Rightarrow>
        (let touched = filter (\<lambda>g. a \<in> set g \<or> b \<in> set g) groups;
             others = filter (\<lambda>g. \<not> (a \<in> set g \<or> b \<in> set g)) groups
         in others @ [remdups (concat touched @ [a, b])]))"

definition join_pairs_ref :: "(nat \<times> nat) list \<Rightarrow> nat list list" where
  "join_pairs_ref pairs = fold join_step pairs []"

lemma argmin_least:
  assumes "xs \<noteq> []"
  shows "\<exists>b. argmin xs = Inr b \<and> b < length xs \<and> (\<forall>y\<in>set xs. xs ! b \<le> y)"
proof -
  let ?c = "filter (\<lambda>i. list_all (\<lambda>y. xs ! i \<le> y) xs) [0..<length xs]"
  have "Min (set xs) \<in> set xs" using assms by simp
  then obtain i where i: "i < length xs" "xs ! i = Min (set xs)"
    by (auto simp: in_set_conv_nth)
  then have "i \<in> set ?c" by (simp add: list_all_iff)
  then have "?c \<noteq> []" by (metis empty_iff empty_set)
  then have "hd ?c \<in> set ?c" by (rule hd_in_set)
  then have "hd ?c < length xs \<and> (\<forall>y\<in>set xs. xs ! hd ?c \<le> y)"
    by (simp add: list_all_iff)
  then show ?thesis using assms by (simp add: argmin_def)
qed

lemma choose_best_least:
  assumes "g \<noteq> []" and "\<forall>i\<in>set g. i < length tf"
  shows "\<exists>i\<in>set g. choose_best tf g = Inr (tf ! i) \<and> (\<forall>i'\<in>set g. snd (tf ! i) \<le> snd (tf ! i'))"
proof -
  have "map (\<lambda>idx. if idx < length tf then Inr (snd (tf ! idx)) else Inl IndexError) g
        = map (\<lambda>idx. Inr (snd (tf ! idx))) g"
    using assms(2) by (intro map_cong refl) simp
  then have errs: "collect (map (\<lambda>idx. if idx < length tf then Inr (snd (tf ! idx)) else Inl IndexError) g)
        = Inr (map (\<lambda>idx. snd (tf ! idx)) g)"
    by (simp only: collect_Inr)
  let ?errs = "map (\<lambda>idx. snd (tf ! idx)) g"
  have "?errs \<noteq> []" using assms(1) by simp
  from argmin_least [OF this]
  obtain b where b: "argmin ?errs = Inr b" "b < length g" "\<forall>y\<in>set ?errs. ?errs ! b \<le> y"
    by auto
  have "choose_best tf g = Inr (tf ! (g ! b))"
    using errs b(1) by (simp add: choose_best_def)
  moreover have "g ! b \<in> set g" using b(2) by simp
  moreover have "\<forall>i'\<in>set g. snd (tf ! (g ! b)) \<le> snd (tf ! i')"
    using b(2,3) by simp
  ultimately show ?thesis by blast
qed

lemma collect_all_Inr:
  assumes "\<forall>x\<in>set xs. \<exists>y. f x = Inr y \<and> P x y"
  shows "\<exists>ys. collect (map f xs) = Inr ys \<and> list_all2 P xs ys"
  using assms
proof (induction xs)
  case Nil
  then show ?case by simp
next
  case (Cons x xs)
  then obtain y where y: "f x = Inr y" "P x y" by auto
  from Cons obtain ys where ys: "collect (map f xs) = Inr ys" "list_all2 P xs ys" by auto
  have "collect (map f (x # xs)) = Inr (y # ys)" using y ys by simp
  then show ?case using y ys by auto
qed

lemma join_step_wf:
  assumes "\<forall>g\<in>set groups. g \<noteq> [] \<and> set g \<subseteq> A"
  shows "\<forall>g\<in>set (join_step (a, b) groups). g \<noteq> [] \<and> set g \<subseteq> insert a (insert b A)"
  using assms by (auto simp: join_step_def Let_def)

lemma fold_join_step_wf:
  assumes "\<forall>g\<in>set groups. g \<noteq> [] \<and> set g \<subseteq> A"
  shows "\<forall>g\<in>set (fold join_step pairs groups).
           g \<noteq> [] \<and> set g \<subseteq> A \<union> fst ` set pairs \<union> snd ` set pairs"
  using assms
proof (induction pairs arbitrary: groups A)
  case Nil
  then show ?case by simp
next
  case (Cons pr pairs)
  obtain a b where pr: "pr = (a, b)" by (cases pr)
  have "\<forall>g\<in>set (fold join_step pairs (join_step (a, b) groups)).
          g \<noteq> [] \<and> set g \<subseteq> insert a (insert b A) \<union> fst ` set pairs \<union> snd ` set pairs"
    by (rule Cons.IH) (rule join_step_wf [OF Cons.prems])
  then show ?case by (auto simp: pr)
qed

lemma joins_pairs_ref: "joins_pairs join_pairs_ref"
proof -
  have "g \<noteq> [] \<and> (\<forall>i\<in>set g. \<exists>(a, b)\<in>set pairs. i = a \<or> i = b)"
    if "g \<in> set (join_pairs_ref pairs)" for g pairs
  proof -
    have "\<forall>g\<in>set (fold join_step pairs []). g \<noteq> [] \<and> set g \<subseteq> {} \<union> fst ` set pairs \<union> snd ` set pairs"
      by (rule fold_join_step_wf) simp
    then have "g \<noteq> []" "set g \<subseteq> fst ` set pairs \<union> snd ` set pairs"
      using that by (auto simp: join_pairs_ref_def)
    then show ?thesis by force
  qed
  then show ?thesis unfolding joins_pairs_def by blast
qed

text \<open>
  Claim C10: \<open>remove_spatial_overlap\<close> first discards every trajectory with fewer than
  two valid samples (\<open>tf\<close> is what remains). Then, for fragments on a common time axis,
  a tolerance \<open>rtol \<ge> 0\<close> and a \<open>join_pairs\<close> that returns non-empty groups of indices of
  the pairs, it returns without error the trajectories of \<open>tf\<close> that belong to no group,
  unchanged and in their order, followed by exactly one trajectory for each group: a
  member of the group whose reprojection error is least within the group.
\<close>

theorem remove_spatial_overlap_best_of_each_group:
  assumes tf: "tf = filter enough_samples trajectories"
    and groups: "groups = overlap_groups join_pairs tf ntol rtol"
    and axis: "\<forall>t\<in>set tf. length (fst t) = T"
    and rtol: "0 \<le> rtol"
    and jp: "joins_pairs join_pairs"
  shows "\<exists>chosen.
           remove_spatial_overlap join_pairs trajectories ntol rtol
             = Inr (map (\<lambda>i. tf ! i) (filter (\<lambda>i. \<forall>g\<in>set groups. i \<notin> set g) [0..<length tf])
                    @ chosen)
           \<and> list_all2 (\<lambda>g c. \<exists>i\<in>set g. c = tf ! i \<and> (\<forall>i'\<in>set g. snd (tf ! i) \<le> snd (tf ! i')))
                groups chosen"
proof (cases "tf = []")
  case True
  then have "groups = []"
    by (simp add: groups overlap_groups_def get_overlap_pairs_def)
  then show ?thesis using True tf
    by (simp add: remove_spatial_overlap_def)
next
  case False
  from get_overlap_pairs_in_range [OF False axis rtol, of ntol]
  obtain ps where ps: "get_overlap_pairs tf ntol rtol = Inr ps"
    and rng: "\<forall>(i, j)\<in>set ps. i < length tf \<and> j < length tf"
    by blast
  have g: "groups = join_pairs ps" by (simp add: groups overlap_groups_def ps)
  have wf: "g \<noteq> [] \<and> (\<forall>i\<in>set g. i < length tf)" if "g \<in> set groups" for g
  proof -
    have "g \<noteq> []" and mem: "\<forall>i\<in>set g. \<exists>(a, b)\<in>set ps. i = a \<or> i = b"
      using jp that unfolding joins_pairs_def g by blast+
    moreover have "i < length tf" if "i \<in> set g" for i
      using mem that rng by fastforce
    ultimately show ?thesis by blast
  qed
  show ?thesis
  proof (cases "groups = []")
    case True
    have "map (\<lambda>i. tf ! i) (filter (\<lambda>i. \<forall>g\<in>set groups. i \<notin> set g) [0..<length tf]) = tf"
      using True by (simp add: map_nth)
    then show ?thesis using True False tf ps g
      by (simp add: remove_spatial_overlap_def)
  next
    case ne: False
    have "\<exists>c. choose_best tf g = Inr c \<and>
            (\<exists>i\<in>set g. c = tf ! i \<and> (\<forall>i'\<in>set g. snd (tf ! i) \<le> snd (tf ! i')))"
      if "g \<in> set groups" for g
    proof -
      from wf [OF that] have "g \<noteq> []" "\<forall>i\<in>set g. i < length tf" by simp_all
      from choose_best_least [OF this] show ?thesis by blast
    qed
    then have "\<forall>g\<in>set groups. \<exists>c. choose_best tf g = Inr c \<and>
            (\<exists>i\<in>set g. c = tf ! i \<and> (\<forall>i'\<in>set g. snd (tf ! i) \<le> snd (tf ! i')))"
      by blast
    from collect_all_Inr [OF this]
    obtain chosen where ch: "collect (map (choose_best tf) groups) = Inr chosen"
      and rel: "list_all2 (\<lambda>g c. \<exists>i\<in>set g. c = tf ! i \<and> (\<forall>i'\<in>set g. snd (tf ! i) \<le> snd (tf ! i')))
                  groups chosen"
      by blast
    have "(\<lambda>i. i \<notin> set (concat groups)) = (\<lambda>i. \<forall>g\<in>set groups. i \<notin> set g)"
      by auto
    then have "remove_spatial_overlap join_pairs trajectories ntol rtol
        = Inr (map (\<lambda>i. tf ! i) (filter (\<lambda>i. \<forall>g\<in>set groups. i \<notin> set g) [0..<length tf]) @ chosen)"
      using False ne tf ps g ch
      by (simp add: remove_spatial_overlap_def Let_def)
    then show ?thesis using rel by blast
  qed
qed

theorem remove_spatial_overlap_best_of_each_group_witness:
  "remove_spatial_overlap join_pairs_ref
     [([(Some 3, Some 3, Some 3), (None, None, None), (None, None, None)], 0),
      ([(Some 0, Some 0, Some 0), (Some 1, Some 0, Some 0), (None, None, None)], 2),
      ([(Some 0, Some 0, Some (1 / 2)), (Some 1, Some 0, Some 0), (None, None, None)], 1),
      ([(Some 10, Some 0, Some 0), (Some 10, Some 0, Some 0), (Some 10, Some 0, Some 0)], 3)]
     2 1
   = Inr [([(Some 10, Some 0, Some 0), (Some 10, Some 0, Some 0), (Some 10, Some 0, Some 0)], 3),
          ([(Some 0, Some 0, Some (1 / 2)), (Some 1, Some 0, Some 0), (None, None, None)], 1)]
   \<and> overlap_groups join_pairs_ref
       [([(Some 0, Some 0, Some 0), (Some 1, Some 0, Some 0), (None, None, None)], 2),
        ([(Some 0, Some 0, Some (1 / 2)), (Some 1, Some 0, Some 0), (None, None, None)], 1),
        ([(Some 10, Some 0, Some 0), (Some 10, Some 0, Some 0), (Some 10, Some 0, Some 0)], 3)]
       2 1 = [[0, 1]]"
proof -
  let ?D = "([(Some 3, Some 3, Some 3), (None, None, None), (None, None, None)], 0) :: traj"
  let ?A = "([(Some 0, Some 0, Some 0), (Some 1, Some 0, Some 0), (None, None, None)], 2) :: traj"
  let ?B = "([(Some 0, Some 0, Some (1 / 2)), (Some 1, Some 0, Some 0), (None, None, None)], 1) :: traj"
  let ?C = "([(Some 10, Some 0, Some 0), (Some 10, Some 0, Some 0), (Some 10, Some 0, Some 0)], 3) :: traj"
  have tf: "[?A, ?B, ?C] = filter enough_samples [?D, ?A, ?B, ?C]"
    by code_simp
  have gr: "[[0, 1]] = overlap_groups join_pairs_ref [?A, ?B, ?C] 2 1"
    by code_simp
  have axis: "\<forall>t\<in>set [?A, ?B, ?C]. length (fst t) = 3"
    by simp
  from remove_spatial_overlap_best_of_each_group [OF tf gr axis _ joins_pairs_ref]
  obtain chosen where
    res: "remove_spatial_overlap join_pairs_ref [?D, ?A, ?B, ?C] 2 1
            = Inr (map (\<lambda>i. [?A, ?B, ?C] ! i)
                     (filter (\<lambda>i. \<forall>g\<in>set [[0, 1]]. i \<notin> set g) [0..<length [?A, ?B, ?C]]) @ chosen)"
    and rel: "list_all2 (\<lambda>g c. \<exists>i\<in>set g. c = [?A, ?B, ?C] ! i \<and>
                 (\<forall>i'\<in>set g. snd ([?A, ?B, ?C] ! i) \<le> snd ([?A, ?B, ?C] ! i')))
               [[0, 1]] chosen"
    by force
  from rel obtain c where c: "chosen = [c]"
    and best: "\<exists>i\<in>set [0, 1]. c = [?A, ?B, ?C] ! i \<and>
                 (\<forall>i'\<in>set [0, 1]. snd ([?A, ?B, ?C] ! i) \<le> snd ([?A, ?B, ?C] ! i'))"
    by (auto simp: list_all2_Cons1)
  from best have "c = ?B" by auto
  moreover have "filter (\<lambda>i. \<forall>g\<in>set [[0, 1]]. i \<notin> set g) [0..<length [?A, ?B, ?C]] = [2]"
    by code_simp
  ultimately show ?thesis using res c gr by simp
qed

section \<open>Trajectory normalisation: \<open>interpolate_nan\<close> and \<open>convert_traj_format\<close>\<close>

text \<open>
  \<^verbatim>\<open>
  def interpolate_nan(coordinates):
      is_nan = np.isnan(coordinates[:, 0])
      for head_idx in range(len(coordinates)):
          if not is_nan[head_idx]:
              break
      for tail_idx in range(len(coordinates))[::-1]:
          if not is_nan[tail_idx]:
              break
      valid_range = slice(head_idx, tail_idx + 1, 1)
      result = coordinates.copy()
      nan_indices = is_nan[valid_range].nonzero()[0]
      not_nan_indices = np.logical_not(is_nan[valid_range]).nonzero()[0]
      for dim in range(3):
          result[:, dim][valid_range][nan_indices] = np.interp(
              nan_indices, not_nan_indices,
              coordinates[:, dim][valid_range][not_nan_indices])
      return result
  \<close>
  A \<open>for\<close> loop that ends without \<open>break\<close> leaves its variable at the last value of the
  range, and leaves it unbound when the range is empty, so that \<open>slice(head_idx, ...)\<close>
  raises \<open>UnboundLocalError\<close> on an empty array. \<open>np_interp\<close> is \<open>np.interp\<close> on
  increasing sample points: numpy raises \<open>ValueError\<close> when the array of sample points
  is empty (also when there is nothing to interpolate) or when \<open>fp\<close> and \<open>xp\<close> differ in
  length; \<open>interp_at\<close> is the piecewise linear interpolant, constant outside the sample
  points. \<open>interpolate_dim\<close> is the body of the loop over \<open>dim\<close>, writing through the
  views into \<open>result\<close>.
\<close>

fun interp_at :: "(nat \<times> fl) list \<Rightarrow> nat \<Rightarrow> fl" where
  "interp_at [] x = None"
| "interp_at [(a, fa)] x = fa"
| "interp_at ((a, fa) # (b, fb) # rest) x =
     (if x < a then fa
      else if x < b then
        fl_op (+) (fl_op (*) (fl_op (/) (fl_op (-) fb fa) (Some (real b - real a)))
                             (Some (real x - real a))) fa
      else interp_at ((b, fb) # rest) x)"

definition np_interp :: "nat list \<Rightarrow> nat list \<Rightarrow> fl list \<Rightarrow> error + fl list" where
  "np_interp x xp fp =
     (if xp = [] then Inl ValueError
      else if length fp \<noteq> length xp then Inl ValueError
      else Inr (map (interp_at (zip xp fp)) x))"

fun get_dim :: "nat \<Rightarrow> point \<Rightarrow> fl" where
  "get_dim d (x, y, z) = (if d = 0 then x else if d = 1 then y else z)"

fun set_dim :: "nat \<Rightarrow> fl \<Rightarrow> point \<Rightarrow> point" where
  "set_dim d v (x, y, z) =
     (if d = 0 then (v, y, z) else if d = 1 then (x, v, z) else (x, y, v))"

definition interpolate_dim ::
  "point list \<Rightarrow> nat \<Rightarrow> nat list \<Rightarrow> nat list \<Rightarrow> nat \<Rightarrow> point list \<Rightarrow> error + point list" where
  "interpolate_dim coordinates head_idx nan_indices not_nan_indices d result =
     (case np_interp nan_indices not_nan_indices
             (map (\<lambda>k. get_dim d (coordinates ! (head_idx + k))) not_nan_indices) of
        Inl e \<Rightarrow> Inl e
      | Inr vals \<Rightarrow>
          Inr (fold (\<lambda>(k, v) r. r[head_idx + k := set_dim d v (r ! (head_idx + k))])
                 (zip nan_indices vals) result))"

fun interpolate_dims ::
  "point list \<Rightarrow> nat \<Rightarrow> nat list \<Rightarrow> nat list \<Rightarrow> nat list \<Rightarrow> point list \<Rightarrow> error + point list" where
  "interpolate_dims coordinates head_idx nan_indices not_nan_indices [] result = Inr result"
| "interpolate_dims coordinates head_idx nan_indices not_nan_indices (d # ds) result =
     (case interpolate_dim coordinates head_idx nan_indices not_nan_indices d result of
        Inl e \<Rightarrow> Inl e
      | Inr result' \<Rightarrow>
          interpolate_dims coordinates head_idx nan_indices not_nan_indices ds result')"

definition interpolate_nan :: "point list \<Rightarrow> error + point list" where
  "interpolate_nan coordinates =
     (let n = length coordinates;
          is_nan = map (\<lambda>(x, y, z). x = None) coordinates
      in if n = 0 then Inl UnboundLocalError
         else
           (let head_idx = (case find (\<lambda>i. \<not> is_nan ! i) [0..<n] of
                              Some i \<Rightarrow> i | None \<Rightarrow> n - 1);
                tail_idx = (case find (\<lambda>i. \<not> is_nan ! i) (rev [0..<n]) of
                              Some i \<Rightarrow> i | None \<Rightarrow> 0);
                valid_range = [head_idx..<tail_idx + 1];
                nan_indices = filter (\<lambda>k. is_nan ! (head_idx + k)) [0..<length valid_range];
                not_nan_indices =
                  filter (\<lambda>k. \<not> is_nan ! (head_idx + k)) [0..<length valid_range]
            in interpolate_dims coordinates head_idx nan_indices not_nan_indices
                 [0, 1, 2] coordinates))"

text \<open>
  \<^verbatim>\<open>
  def convert_traj_format(traj, t0):
      was_nan = True
      new_traj = [[], []]
      coordinates = traj[0].copy()
      is_valid_array = np.logical_not(np.isnan(coordinates[:, 0]))
      is_valid_array = fill_hole_1d(is_valid_array, size=3)
      coordinates = interpolate_nan(coordinates)
      coordinates[~is_valid_array] = np.nan
      for t, coord in enumerate(coordinates):
          is_nan = np.isnan(coord).any()
          if (not is_nan):
              new_traj[0].append(t0 + t)
              new_traj[1].append(coord)
          was_nan = is_nan
      return [ (np.array(new_traj[0]), np.array(new_traj[1])) ]
  \<close>
  The result is a list of one trajectory \<open>(time, positions)\<close>.
\<close>

definition convert_traj_format :: "traj \<Rightarrow> int \<Rightarrow> error + (int list \<times> point list) list" where
  "convert_traj_format traj t0 =
     (let coordinates = fst traj;
          is_valid_array = map (\<lambda>(x, y, z). x \<noteq> None) coordinates;
          is_valid_array = fill_hole_1d is_valid_array 3
      in case interpolate_nan coordinates of
           Inl e \<Rightarrow> Inl e
         | Inr coordinates \<Rightarrow>
             (let coordinates =
                    map (\<lambda>(v, c). if v then c else (None, None, None))
                      (zip is_valid_array coordinates);
                  kept = filter (\<lambda>(t, (x, y, z)). \<not> (x = None \<or> y = None \<or> z = None))
                           (zip [0..<length coordinates] coordinates)
              in Inr [(map (\<lambda>(t, coord). t0 + int t) kept, map snd kept)]))"

lemma convert_traj_format_interpolates_short_hole:
  "convert_traj_format
     ([(Some 0, Some 0, Some 0), (Some 1, Some 2, Some 0), (None, None, None),
       (None, None, None), (Some 4, Some 8, Some 0)], 0) 100
   = Inr [([100, 101, 102, 103, 104],
           [(Some 0, Some 0, Some 0), (Some 1, Some 2, Some 0), (Some 2, Some 4, Some 0),
            (Some 3, Some 6, Some 0), (Some 4, Some 8, Some 0)])]"
  by code_simp

lemma convert_traj_format_trims_leading_missing:
  "convert_traj_format
     ([(None, None, None), (None, None, None), (Some 2, Some 4, Some 0),
       (Some 3, Some 6, Some 0)], 0) 100
   = Inr [([102, 103], [(Some 2, Some 4, Some 0), (Some 3, Some 6, Some 0)])]"
  by code_simp

lemma interpolate_nan_all_missing:
  assumes "\<forall>p\<in>set coordinates. fst p = None"
  shows "interpolate_nan coordinates
         = Inl (if coordinates = [] then UnboundLocalError else ValueError)"
proof (cases "coordinates = []")
  case True
  then show ?thesis by (simp add: interpolate_nan_def)
next
  case False
  let ?n = "length coordinates"
  let ?is_nan = "map (\<lambda>(x, y, z). x = None) coordinates"
  have nan: "?is_nan ! i" if "i < ?n" for i
    using assms that by (auto simp: split_def)
  have f1: "find (\<lambda>i. \<not> ?is_nan ! i) [0..<?n] = None"
    using nan by (simp add: find_None_iff)
  have f2: "find (\<lambda>i. \<not> ?is_nan ! i) (rev [0..<?n]) = None"
    using nan by (simp add: find_None_iff)
  have pos: "0 < ?n" using False by simp
  have len: "length [?n - 1..<0 + 1] = 1 - (?n - 1)"
    by (simp del: upt_Suc)
  have "?n - 1 + k < ?n" if "k \<in> set [0..<length [?n - 1..<0 + 1]]" for k
  proof -
    from that have "k < length [?n - 1..<0 + 1]"
      by (simp only: set_upt atLeastLessThan_iff)
    then have "k < 1 - (?n - 1)" unfolding len .
    then show ?thesis using pos by linarith
  qed
  then have "filter (\<lambda>k. \<not> ?is_nan ! (?n - 1 + k)) [0..<length [?n - 1..<0 + 1]] = []"
    unfolding filter_empty_conv using nan by blast
  then show ?thesis
    using False
    by (simp add: interpolate_nan_def Let_def f1 f2 interpolate_dim_def np_interp_def
        del: upt_Suc)
qed

text \<open>
  Claim C2 says that a fragment with no valid sample is converted to an empty
  trajectory without an error. In the source such a fragment never reaches the loop
  that builds the trajectory: neither loop of \<open>interpolate_nan\<close> finds a valid offset,
  the array of sample points handed to \<open>np.interp\<close> is empty, and numpy raises
  \<open>ValueError\<close> (on an array of length zero, \<open>head_idx\<close> is unbound). So
  \<open>convert_traj_format\<close> raises on every fragment with no valid sample.
\<close>

theorem convert_traj_format_no_valid_sample_raises:
  assumes "\<forall>p\<in>set (fst traj). fst p = None"
  shows "convert_traj_format traj t0
         = Inl (if fst traj = [] then UnboundLocalError else ValueError)"
  using interpolate_nan_all_missing [OF assms]
  by (simp add: convert_traj_format_def Let_def)

theorem convert_traj_format_no_valid_sample_raises_witness:
  "convert_traj_format ([(None, None, None), (None, None, None)], 1) 0 = Inl ValueError"
  using convert_traj_format_no_valid_sample_raises
    [of "([(None, None, None), (None, None, None)], 1)" 0]
  by simp

section \<open>Temporal overlap between two batches: \<open>get_temporal_overlapped_pairs\<close>\<close>

text \<open>
  \<^verbatim>\<open>
  def get_temporal_overlapped_pairs(batch_1, batch_2, lag, ntol, rtol, unique='conn'):
      rtol_sq = rtol ** 2
      dist_mat = np.empty((len(batch_1), len(batch_2), lag))  # (N1, N2, lag)
      for i, t1 in enumerate(batch_1):
          for j, t2 in enumerate(batch_2):
              dist_sq = np.sum(np.power(t1[0][-lag:] - t2[0][:lag], 2), axis=1)
              dist_mat[i, j, :] = dist_sq
      with np.errstate(invalid='ignore'):  # ignore the case like NAN < 5
          conn_mat = np.sum(dist_mat < rtol_sq, axis=2)
          adj_mat = conn_mat >= ntol  # (N1, N2)
      if unique and dist_mat.shape[0] > 0 and dist_mat.shape[1] > 0:
          if unique == 'dist':
              min_dist_mat = np.nanmin(dist_mat, axis=2)  # (N1, N2)
              mask_1 = np.isclose(
                  min_dist_mat, np.nanmin(min_dist_mat, axis=0)[np.newaxis, :])
              mask_2 = np.isclose(
                  min_dist_mat, np.nanmin(min_dist_mat, axis=1)[:, np.newaxis])
          elif unique == 'conn':
              mask_1 = np.isclose(
                  conn_mat, np.nanmax(conn_mat, axis=0)[np.newaxis, :])
              mask_2 = np.isclose(
                  conn_mat, np.nanmax(conn_mat, axis=1)[:, np.newaxis])
          adj_mat *= np.logical_and(mask_1, mask_2)
      pairs = np.nonzero(adj_mat)
      return np.array(pairs).T  # (N, 2)
  \<close>
  The policy \<open>unique\<close> is a value of \<open>uniqueness\<close>: \<open>Off\<close> for a false value, \<open>Dist\<close> for
  \<open>'dist'\<close> and \<open>Conn\<close> for \<open>'conn'\<close>. \<open>lag\<close> is a natural number. \<open>tail_rows\<close> is the
  slice \<open>[-lag:]\<close>, which is the whole array when \<open>lag = 0\<close>; \<open>lag_dist\<close> is the body of
  the double loop, with numpy's broadcasting and row assignment. \<open>isclose\<close> is
  \<open>np.isclose\<close> with its default tolerances
  (\<open>\<bar>a - b\<bar> \<le> 1e-8 + 1e-5 * \<bar>b\<bar>\<close>, false on a missing value). \<open>nan_best min\<close> and
  \<open>nan_best max\<close> are \<open>np.nanmin\<close> and \<open>np.nanmax\<close> of a non-empty sequence (a missing
  value when every entry is missing); \<open>nan_reduce\<close> adds the \<open>ValueError\<close> of a reduction
  over an empty axis. \<open>both_best_mask\<close> computes \<open>mask_1 \<and> mask_2\<close> from the matrix of
  scores: \<open>best_0\<close> reduces along axis 0 (one value per fragment of the second batch),
  \<open>best_1\<close> along axis 1.
\<close>

datatype uniqueness = Off | Dist | Conn

definition tail_rows :: "nat \<Rightarrow> 'a list \<Rightarrow> 'a list" where
  "tail_rows lag a = (if lag = 0 then a else drop (length a - lag) a)"

definition lag_dist :: "nat \<Rightarrow> point list \<Rightarrow> point list \<Rightarrow> error + fl list" where
  "lag_dist lag a b =
     (case broadcast_rows (tail_rows lag a) (take lag b) of
        Inl e \<Rightarrow> Inl e
      | Inr rows \<Rightarrow> assign_row lag (map (\<lambda>(p, q). sq_dist p q) rows))"

definition isclose :: "fl \<Rightarrow> fl \<Rightarrow> bool" where
  "isclose a b =
     (case a of None \<Rightarrow> False
      | Some x \<Rightarrow> (case b of None \<Rightarrow> False
          | Some y \<Rightarrow> \<bar>x - y\<bar> \<le> 1 / 10 ^ 8 + 1 / 10 ^ 5 * \<bar>y\<bar>))"

definition nan_best :: "(real \<Rightarrow> real \<Rightarrow> real) \<Rightarrow> fl list \<Rightarrow> fl" where
  "nan_best f xs =
     (case concat (map (\<lambda>v. case v of None \<Rightarrow> [] | Some r \<Rightarrow> [r]) xs) of
        [] \<Rightarrow> None
      | r # rs \<Rightarrow> Some (fold f rs r))"

definition nan_reduce :: "(real \<Rightarrow> real \<Rightarrow> real) \<Rightarrow> fl list \<Rightarrow> error + fl" where
  "nan_reduce f xs = (if xs = [] then Inl ValueError else Inr (nan_best f xs))"

definition both_best_mask ::
  "(real \<Rightarrow> real \<Rightarrow> real) \<Rightarrow> fl list list \<Rightarrow> error + bool list list" where
  "both_best_mask f score =
     (let n2 = length (hd score) in
      case collect (map (\<lambda>j. nan_reduce f (map (\<lambda>row. row ! j) score)) [0..<n2]) of
        Inl e \<Rightarrow> Inl e
      | Inr best_0 \<Rightarrow>
          (case collect (map (nan_reduce f) score) of
             Inl e \<Rightarrow> Inl e
           | Inr best_1 \<Rightarrow>
               Inr (map (\<lambda>i. map (\<lambda>j. isclose (score ! i ! j) (best_0 ! j)
                                         \<and> isclose (score ! i ! j) (best_1 ! i)) [0..<n2])
                      [0..<length score])))"

definition unique_mask ::
  "uniqueness \<Rightarrow> fl list list list \<Rightarrow> nat list list \<Rightarrow> error + bool list list" where
  "unique_mask unique dist_mat conn_mat =
     (case unique of
        Dist \<Rightarrow>
          (case collect (map (\<lambda>row. collect (map (nan_reduce min) row)) dist_mat) of
             Inl e \<Rightarrow> Inl e
           | Inr min_dist_mat \<Rightarrow> both_best_mask min min_dist_mat)
      | _ \<Rightarrow> both_best_mask max (map (map (\<lambda>c. Some (real c))) conn_mat))"

definition get_temporal_overlapped_pairs ::
  "traj list \<Rightarrow> traj list \<Rightarrow> nat \<Rightarrow> int \<Rightarrow> real \<Rightarrow> uniqueness \<Rightarrow> error + (nat \<times> nat) list" where
  "get_temporal_overlapped_pairs batch_1 batch_2 lag ntol rtol unique =
     (let rtol_sq = rtol ^ 2 in
      case collect (map (\<lambda>t1. collect (map (\<lambda>t2. lag_dist lag (fst t1) (fst t2)) batch_2))
                      batch_1) of
        Inl e \<Rightarrow> Inl e
      | Inr dist_mat \<Rightarrow>
          (let conn_mat = map (map (\<lambda>d. length (filter (\<lambda>x. fl_lt x rtol_sq) d))) dist_mat;
               adj_mat = map (map (\<lambda>c. ntol \<le> int c)) conn_mat
           in if unique \<noteq> Off \<and> 0 < length batch_1 \<and> 0 < length batch_2 then
                (case unique_mask unique dist_mat conn_mat of
                   Inl e \<Rightarrow> Inl e
                 | Inr msk \<Rightarrow>
                     Inr (nonzero2 (map (\<lambda>(adj_row, mask_row).
                                          map (\<lambda>(a, m). a \<and> m) (zip adj_row mask_row))
                                      (zip adj_mat msk))))
              else Inr (nonzero2 adj_mat)))"

subsection \<open>Best matches\<close>

text \<open>
  \<open>window_dists\<close> are the squared distances of two fragments over the lag window.
  \<open>reaches_ntol\<close> is the entry of \<open>adj_mat\<close> before masking: at least \<open>ntol\<close> offsets of
  the window are closer than \<open>rtol\<close>. \<open>match_score\<close> is the score the policy compares:
  the least squared distance in the window for \<open>Dist\<close>, the number of offsets closer
  than \<open>rtol\<close> for \<open>Conn\<close>. \<open>best_for_both u lag rtol batch_1 batch_2 i j\<close> says that
  the score of the pair \<open>(i, j)\<close> is, up to \<open>isclose\<close>, the best score among all
  fragments of the first batch against \<open>j\<close>, and the best among all fragments of the
  second batch against \<open>i\<close>. A pair is \<open>linked\<close> when it reaches \<open>ntol\<close> and is best for
  both sides. \<open>tied\<close> says that two different linked pairs share a fragment.
  \<open>one_match_per_fragment\<close> says that no index of either batch occurs in two pairs.
\<close>

definition window_dists :: "nat \<Rightarrow> traj \<Rightarrow> traj \<Rightarrow> fl list" where
  "window_dists lag t1 t2 =
     (case lag_dist lag (fst t1) (fst t2) of Inl e \<Rightarrow> [] | Inr d \<Rightarrow> d)"

definition reaches_ntol :: "nat \<Rightarrow> int \<Rightarrow> real \<Rightarrow> traj \<Rightarrow> traj \<Rightarrow> bool" where
  "reaches_ntol lag ntol rtol t1 t2 \<longleftrightarrow>
     ntol \<le> int (length (filter (\<lambda>x. fl_lt x (rtol ^ 2)) (window_dists lag t1 t2)))"

definition match_score :: "uniqueness \<Rightarrow> nat \<Rightarrow> real \<Rightarrow> traj \<Rightarrow> traj \<Rightarrow> fl" where
  "match_score u lag rtol t1 t2 =
     (case u of
        Dist \<Rightarrow> nan_best min (window_dists lag t1 t2)
      | _ \<Rightarrow> Some (real (length (filter (\<lambda>x. fl_lt x (rtol ^ 2)) (window_dists lag t1 t2)))))"

definition best_score :: "uniqueness \<Rightarrow> fl list \<Rightarrow> fl" where
  "best_score u scores = (case u of Dist \<Rightarrow> nan_best min scores | _ \<Rightarrow> nan_best max scores)"

definition best_for_both ::
  "uniqueness \<Rightarrow> nat \<Rightarrow> real \<Rightarrow> traj list \<Rightarrow> traj list \<Rightarrow> nat \<Rightarrow> nat \<Rightarrow> bool" where
  "best_for_both u lag rtol batch_1 batch_2 i j \<longleftrightarrow>
     isclose (match_score u lag rtol (batch_1 ! i) (batch_2 ! j))
       (best_score u (map (\<lambda>t1. match_score u lag rtol t1 (batch_2 ! j)) batch_1))
     \<and> isclose (match_score u lag rtol (batch_1 ! i) (batch_2 ! j))
       (best_score u (map (\<lambda>t2. match_score u lag rtol (batch_1 ! i) t2) batch_2))"

definition linked ::
  "uniqueness \<Rightarrow> nat \<Rightarrow> int \<Rightarrow> real \<Rightarrow> traj list \<Rightarrow> traj list \<Rightarrow> nat \<Rightarrow> nat \<Rightarrow> bool" where
  "linked u lag ntol rtol batch_1 batch_2 i j \<longleftrightarrow>
     reaches_ntol lag ntol rtol (batch_1 ! i) (batch_2 ! j)
     \<and> best_for_both u lag rtol batch_1 batch_2 i j"

definition tied ::
  "uniqueness \<Rightarrow> nat \<Rightarrow> int \<Rightarrow> real \<Rightarrow> traj list \<Rightarrow> traj list \<Rightarrow> bool" where
  "tied u lag ntol rtol batch_1 batch_2 \<longleftrightarrow>
     list_ex (\<lambda>i. list_ex (\<lambda>i'. list_ex (\<lambda>j. list_ex (\<lambda>j'.
         (i = i' \<or> j = j') \<and> (i, j) \<noteq> (i', j')
         \<and> linked u lag ntol rtol batch_1 batch_2 i j
         \<and> linked u lag ntol rtol batch_1 batch_2 i' j')
       [0..<length batch_2]) [0..<length batch_2]) [0..<length batch_1]) [0..<length batch_1]"

definition one_match_per_fragment :: "(nat \<times> nat) list \<Rightarrow> bool" where
  "one_match_per_fragment ps \<longleftrightarrow> distinct (map fst ps) \<and> distinct (map snd ps)"

lemma collect_map_Inr_nth:
  assumes "collect (map f xs) = Inr ys"
  shows "length ys = length xs" and "i < length xs \<Longrightarrow> f (xs ! i) = Inr (ys ! i)"
  using assms
proof (induction xs arbitrary: ys i)
  case Nil
  { case 1 then show ?case by simp }
  { case 2 then show ?case by simp }
next
  case (Cons x xs)
  { case 1
    then show ?case using Cons.IH(1) by (auto split: sum.splits) }
  { case 2
    then show ?case using Cons.IH(2) by (cases i) (auto split: sum.splits) }
qed

lemma collect_map_Inr_eq:
  assumes "collect (map f xs) = Inr ys" and "\<And>x y. x \<in> set xs \<Longrightarrow> f x = Inr y \<Longrightarrow> y = g x"
  shows "ys = map g xs"
proof (rule nth_equalityI)
  show "length ys = length (map g xs)" using collect_map_Inr_nth(1) [OF assms(1)] by simp
next
  fix i assume "i < length ys"
  then have i: "i < length xs" using collect_map_Inr_nth(1) [OF assms(1)] by simp
  then have "f (xs ! i) = Inr (ys ! i)" by (rule collect_map_Inr_nth(2) [OF assms(1)])
  then have "ys ! i = g (xs ! i)" using assms(2) i by simp
  then show "ys ! i = map g xs ! i" using i by simp
qed

lemma dist_mat_window_dists:
  fixes batch_1 batch_2 :: "traj list"
  assumes "collect (map (\<lambda>t1. collect (map (\<lambda>t2. lag_dist lag (fst t1) (fst t2)) batch_2))
             batch_1) = Inr dist_mat"
  shows "dist_mat = map (\<lambda>t1. map (\<lambda>t2. window_dists lag t1 t2) batch_2) batch_1"
proof (rule collect_map_Inr_eq [OF assms])
  fix t1 :: traj and row
  assume "collect (map (\<lambda>t2. lag_dist lag (fst t1) (fst t2)) batch_2) = Inr row"
  then show "row = map (\<lambda>t2. window_dists lag t1 t2) batch_2"
    by (rule collect_map_Inr_eq) (simp add: window_dists_def)
qed

lemma nan_reduce_Inr: "nan_reduce f xs = Inr v \<Longrightarrow> v = nan_best f xs"
  by (simp add: nan_reduce_def split: if_splits)

lemma both_best_mask_Inr:
  assumes "both_best_mask f S = Inr msk"
  shows "msk = map (\<lambda>i. map (\<lambda>j. isclose (S ! i ! j) (nan_best f (map (\<lambda>row. row ! j) S))
                                \<and> isclose (S ! i ! j) (nan_best f (S ! i)))
                         [0..<length (hd S)])
                 [0..<length S]"
proof -
  let ?n2 = "length (hd S)"
  from assms obtain best_0 best_1 where
    b0: "collect (map (\<lambda>j. nan_reduce f (map (\<lambda>row. row ! j) S)) [0..<?n2]) = Inr best_0"
    and b1: "collect (map (nan_reduce f) S) = Inr best_1"
    and m: "msk = map (\<lambda>i. map (\<lambda>j. isclose (S ! i ! j) (best_0 ! j)
                                      \<and> isclose (S ! i ! j) (best_1 ! i)) [0..<?n2])
                   [0..<length S]"
    by (auto simp: both_best_mask_def Let_def split: sum.splits)
  have e0: "best_0 = map (\<lambda>j. nan_best f (map (\<lambda>row. row ! j) S)) [0..<?n2]"
    by (rule collect_map_Inr_eq [OF b0]) (rule nan_reduce_Inr)
  have e1: "best_1 = map (nan_best f) S"
    by (rule collect_map_Inr_eq [OF b1]) (rule nan_reduce_Inr)
  show ?thesis
    unfolding m by (intro map_cong refl) (simp_all add: e0 e1)
qed

lemma unique_mask_scores:
  fixes batch_1 batch_2 :: "traj list"
  assumes "u \<noteq> Off"
    and "unique_mask u (map (\<lambda>t1. map (\<lambda>t2. window_dists lag t1 t2) batch_2) batch_1)
           (map (map (\<lambda>d. length (filter (\<lambda>x. fl_lt x (rtol ^ 2)) d)))
              (map (\<lambda>t1. map (\<lambda>t2. window_dists lag t1 t2) batch_2) batch_1)) = Inr msk"
  shows "both_best_mask (case u of Dist \<Rightarrow> min | _ \<Rightarrow> max)
           (map (\<lambda>t1. map (\<lambda>t2. match_score u lag rtol t1 t2) batch_2) batch_1) = Inr msk"
proof (cases u)
  case Off
  then show ?thesis using assms(1) by simp
next
  case Conn
  let ?W = "map (\<lambda>t1. map (\<lambda>t2. window_dists lag t1 t2) batch_2) batch_1"
  have eq: "map (map (\<lambda>c. Some (real c)))
          (map (map (\<lambda>d. length (filter (\<lambda>x. fl_lt x (rtol ^ 2)) d))) ?W)
        = map (\<lambda>t1. map (\<lambda>t2. match_score Conn lag rtol t1 t2) batch_2) batch_1"
    by (simp add: match_score_def o_def)
  from assms(2) have "both_best_mask max (map (map (\<lambda>c. Some (real c)))
          (map (map (\<lambda>d. length (filter (\<lambda>x. fl_lt x (rtol ^ 2)) d))) ?W)) = Inr msk"
    unfolding Conn unique_mask_def uniqueness.case .
  then show ?thesis unfolding Conn eq uniqueness.case .
next
  case Dist
  let ?W = "map (\<lambda>t1. map (\<lambda>t2. window_dists lag t1 t2) batch_2) batch_1"
  from assms(2) Dist obtain mdm where
    c: "collect (map (\<lambda>row. collect (map (nan_reduce min) row)) ?W) = Inr mdm"
    and b: "both_best_mask min mdm = Inr msk"
    by (auto simp: unique_mask_def split: sum.splits)
  have "mdm = map (map (nan_best min)) ?W"
  proof (rule collect_map_Inr_eq [OF c])
    fix row :: "fl list list" and y
    assume "collect (map (nan_reduce min) row) = Inr y"
    then show "y = map (nan_best min) row"
      by (rule collect_map_Inr_eq) (rule nan_reduce_Inr)
  qed
  then have "mdm = map (\<lambda>t1. map (\<lambda>t2. match_score Dist lag rtol t1 t2) batch_2) batch_1"
    by (simp add: match_score_def o_def)
  then show ?thesis using b Dist by simp
qed

lemma temporal_pairs_linked:
  assumes u: "u \<noteq> Off"
    and res: "get_temporal_overlapped_pairs batch_1 batch_2 lag ntol rtol u = Inr ps"
  shows "distinct ps"
    and "(i, j) \<in> set ps \<longleftrightarrow>
           i < length batch_1 \<and> j < length batch_2 \<and> linked u lag ntol rtol batch_1 batch_2 i j"
proof -
  let ?W = "map (\<lambda>t1. map (\<lambda>t2. window_dists lag t1 t2) batch_2) batch_1"
  let ?conn = "map (map (\<lambda>d. length (filter (\<lambda>x. fl_lt x (rtol ^ 2)) d))) ?W"
  let ?adj = "map (map (\<lambda>c. ntol \<le> int c)) ?conn"
  let ?S = "map (\<lambda>t1. map (\<lambda>t2. match_score u lag rtol t1 t2) batch_2) batch_1"
  let ?f = "case u of Dist \<Rightarrow> min | _ \<Rightarrow> max"
  from res obtain dist_mat where
    dm: "collect (map (\<lambda>t1. collect (map (\<lambda>t2. lag_dist lag (fst t1) (fst t2)) batch_2))
           batch_1) = Inr dist_mat"
    by (auto simp: get_temporal_overlapped_pairs_def Let_def split: sum.splits)
  have W: "dist_mat = ?W" by (rule dist_mat_window_dists [OF dm])
  have rest: "(if 0 < length batch_1 \<and> 0 < length batch_2
               then case unique_mask u ?W ?conn of
                      Inl e \<Rightarrow> Inl e
                    | Inr msk \<Rightarrow>
                        Inr (nonzero2 (map (\<lambda>(adj_row, mask_row).
                                             map (\<lambda>(a, m). a \<and> m) (zip adj_row mask_row))
                                         (zip ?adj msk)))
               else Inr (nonzero2 ?adj)) = Inr ps"
    using res u unfolding get_temporal_overlapped_pairs_def Let_def dm W sum.case by simp
  have "distinct ps \<and> ((i, j) \<in> set ps \<longleftrightarrow>
           i < length batch_1 \<and> j < length batch_2 \<and> linked u lag ntol rtol batch_1 batch_2 i j)"
  proof (cases "0 < length batch_1 \<and> 0 < length batch_2")
    case False
    have ps: "ps = nonzero2 ?adj" using rest unfolding if_not_P [OF False] by simp
    have e: "set ps = {}"
      unfolding ps set_nonzero2 using False by auto
    have n: "\<not> (i < length batch_1 \<and> j < length batch_2)" using False by auto
    have "(i, j) \<in> set ps \<longleftrightarrow>
            i < length batch_1 \<and> j < length batch_2 \<and> linked u lag ntol rtol batch_1 batch_2 i j"
      using n by (auto simp: e)
    moreover have "distinct ps" unfolding ps by (rule distinct_nonzero2)
    ultimately show ?thesis by blast
  next
    case True
    then obtain msk where um: "unique_mask u ?W ?conn = Inr msk"
      and ps: "ps = nonzero2 (map (\<lambda>(adj_row, mask_row).
                                     map (\<lambda>(a, m). a \<and> m) (zip adj_row mask_row))
                                 (zip ?adj msk))"
      using rest unfolding if_P [OF True] by (auto split: sum.splits)
    have hd: "length (hd ?S) = length batch_2"
      using True by (cases batch_1) simp_all
    have msk: "msk = map (\<lambda>i. map (\<lambda>j. isclose (?S ! i ! j) (nan_best ?f (map (\<lambda>row. row ! j) ?S))
                                  \<and> isclose (?S ! i ! j) (nan_best ?f (?S ! i)))
                           [0..<length batch_2])
                   [0..<length batch_1]"
      using both_best_mask_Inr [OF unique_mask_scores [OF u um]] unfolding hd by simp
    have best: "msk ! i ! j \<longleftrightarrow> best_for_both u lag rtol batch_1 batch_2 i j"
      if ij: "i < length batch_1" "j < length batch_2"
    proof -
      have bs: "nan_best ?f = best_score u"
        by (rule ext) (simp add: best_score_def split: uniqueness.splits)
      have e1: "?S ! i ! j = match_score u lag rtol (batch_1 ! i) (batch_2 ! j)"
        using ij by simp
      have "map (\<lambda>row. row ! j) ?S = map (\<lambda>t1. match_score u lag rtol t1 (batch_2 ! j)) batch_1"
        using ij by simp
      then have e2: "nan_best ?f (map (\<lambda>row. row ! j) ?S)
                     = best_score u (map (\<lambda>t1. match_score u lag rtol t1 (batch_2 ! j)) batch_1)"
        by (simp only: bs)
      have "?S ! i = map (\<lambda>t2. match_score u lag rtol (batch_1 ! i) t2) batch_2"
        using ij by simp
      then have e3: "nan_best ?f (?S ! i)
                     = best_score u (map (\<lambda>t2. match_score u lag rtol (batch_1 ! i) t2) batch_2)"
        by (simp only: bs)
      have "msk ! i ! j \<longleftrightarrow> isclose (?S ! i ! j) (nan_best ?f (map (\<lambda>row. row ! j) ?S))
            \<and> isclose (?S ! i ! j) (nan_best ?f (?S ! i))"
        using ij unfolding msk by simp
      then show ?thesis
        unfolding best_for_both_def e1 e2 e3 .
    qed
    have adj: "?adj ! i ! j \<longleftrightarrow> reaches_ntol lag ntol rtol (batch_1 ! i) (batch_2 ! j)"
      if ij: "i < length batch_1" "j < length batch_2"
      using ij by (simp add: reaches_ntol_def)
    have lm: "length msk = length batch_1" unfolding msk by simp
    have lmi: "length (msk ! i) = length batch_2" if "i < length batch_1"
      using that unfolding msk by simp
    have mem: "(i, j) \<in> set ps \<longleftrightarrow>
                 i < length batch_1 \<and> j < length batch_2 \<and> ?adj ! i ! j \<and> msk ! i ! j"
    proof (cases "i < length batch_1")
      case False
      then show ?thesis unfolding ps set_nonzero2 by (simp add: lm)
    next
      case i: True
      show ?thesis
      proof (cases "j < length batch_2")
        case False
        then show ?thesis using i unfolding ps set_nonzero2 by (simp add: lm lmi)
      next
        case j: True
        show ?thesis using i j unfolding ps set_nonzero2 by (simp add: lm lmi)
      qed
    qed
    have "(i, j) \<in> set ps \<longleftrightarrow>
            i < length batch_1 \<and> j < length batch_2 \<and> linked u lag ntol rtol batch_1 batch_2 i j"
      unfolding mem linked_def using best adj by blast
    then show ?thesis using ps distinct_nonzero2 by blast
  qed
  then show "distinct ps"
    and "(i, j) \<in> set ps \<longleftrightarrow>
           i < length batch_1 \<and> j < length batch_2 \<and> linked u lag ntol rtol batch_1 batch_2 i j"
    by simp_all
qed

lemma tied_iff:
  "tied u lag ntol rtol batch_1 batch_2 \<longleftrightarrow>
     (\<exists>i i' j j'. i < length batch_1 \<and> i' < length batch_1
        \<and> j < length batch_2 \<and> j' < length batch_2
        \<and> (i = i' \<or> j = j') \<and> (i, j) \<noteq> (i', j')
        \<and> linked u lag ntol rtol batch_1 batch_2 i j
        \<and> linked u lag ntol rtol batch_1 batch_2 i' j')"
  unfolding tied_def list_ex_iff set_upt atLeastLessThan_iff by (simp add: Bex_def)

lemma one_match_per_fragment_iff:
  assumes "distinct ps"
  shows "one_match_per_fragment ps
         \<longleftrightarrow> (\<forall>i j i' j'. (i, j) \<in> set ps \<and> (i', j') \<in> set ps \<longrightarrow> (i = i' \<longleftrightarrow> j = j'))"
proof
  assume o: "one_match_per_fragment ps"
  then have f: "inj_on fst (set ps)" and g: "inj_on snd (set ps)"
    by (simp_all add: one_match_per_fragment_def distinct_map)
  have "i = i' \<longleftrightarrow> j = j'" if "(i, j) \<in> set ps" "(i', j') \<in> set ps" for i j i' j'
    using inj_onD [OF f, of "(i, j)" "(i', j')"] inj_onD [OF g, of "(i, j)" "(i', j')"] that
    by auto
  then show "\<forall>i j i' j'. (i, j) \<in> set ps \<and> (i', j') \<in> set ps \<longrightarrow> (i = i' \<longleftrightarrow> j = j')"
    by blast
next
  assume a: "\<forall>i j i' j'. (i, j) \<in> set ps \<and> (i', j') \<in> set ps \<longrightarrow> (i = i' \<longleftrightarrow> j = j')"
  have "inj_on fst (set ps)" "inj_on snd (set ps)"
    using a by (auto simp: inj_on_def)
  then show "one_match_per_fragment ps"
    using assms by (simp add: one_match_per_fragment_def distinct_map)
qed

text \<open>
  What the uniqueness policies guarantee. When \<open>get_temporal_overlapped_pairs\<close> is
  called with \<open>'dist'\<close> or \<open>'conn'\<close> and returns, no pair is returned twice, and the
  returned pairs are exactly the pairs of fragments that reach \<open>ntol\<close> and are best
  (up to the tolerance of \<open>np.isclose\<close>) from both perspectives. Every fragment index
  occurs in at most one returned pair exactly when no two such pairs share a fragment.
\<close>

lemma get_temporal_overlapped_pairs_linked:
  assumes "u \<noteq> Off"
    and "get_temporal_overlapped_pairs batch_1 batch_2 lag ntol rtol u = Inr ps"
  shows "distinct ps"
    and "set ps = {(i, j). i < length batch_1 \<and> j < length batch_2
                     \<and> reaches_ntol lag ntol rtol (batch_1 ! i) (batch_2 ! j)
                     \<and> best_for_both u lag rtol batch_1 batch_2 i j}"
    and "one_match_per_fragment ps \<longleftrightarrow> \<not> tied u lag ntol rtol batch_1 batch_2"
proof -
  note l = temporal_pairs_linked [OF assms]
  show "distinct ps" by (rule l(1))
  show "set ps = {(i, j). i < length batch_1 \<and> j < length batch_2
                     \<and> reaches_ntol lag ntol rtol (batch_1 ! i) (batch_2 ! j)
                     \<and> best_for_both u lag rtol batch_1 batch_2 i j}"
    using l(2) by (auto simp: linked_def)
  show "one_match_per_fragment ps \<longleftrightarrow> \<not> tied u lag ntol rtol batch_1 batch_2"
  proof
    assume o: "one_match_per_fragment ps"
    show "\<not> tied u lag ntol rtol batch_1 batch_2"
    proof
      assume "tied u lag ntol rtol batch_1 batch_2"
      then obtain i i' j j' where
        r: "i < length batch_1" "i' < length batch_1" "j < length batch_2" "j' < length batch_2"
        and d: "i = i' \<or> j = j'" "(i, j) \<noteq> (i', j')"
        and k: "linked u lag ntol rtol batch_1 batch_2 i j"
          "linked u lag ntol rtol batch_1 batch_2 i' j'"
        unfolding tied_iff by blast
      have "(i, j) \<in> set ps" "(i', j') \<in> set ps"
        using l(2) r k by simp_all
      then have "i = i' \<longleftrightarrow> j = j'"
        using o unfolding one_match_per_fragment_iff [OF l(1)] by blast
      then show False using d by auto
    qed
  next
    assume nt: "\<not> tied u lag ntol rtol batch_1 batch_2"
    have "i = i' \<longleftrightarrow> j = j'" if p: "(i, j) \<in> set ps" "(i', j') \<in> set ps" for i j i' j'
    proof (rule ccontr)
      assume "\<not> (i = i' \<longleftrightarrow> j = j')"
      then have d: "i = i' \<or> j = j'" "(i, j) \<noteq> (i', j')" by auto
      have "i < length batch_1 \<and> j < length batch_2 \<and> linked u lag ntol rtol batch_1 batch_2 i j"
        "i' < length batch_1 \<and> j' < length batch_2
         \<and> linked u lag ntol rtol batch_1 batch_2 i' j'"
        using l(2) p by simp_all
      then have "tied u lag ntol rtol batch_1 batch_2"
        unfolding tied_iff using d by blast
      then show False using nt by simp
    qed
    then show "one_match_per_fragment ps"
      unfolding one_match_per_fragment_iff [OF l(1)] by blast
  qed
qed

text \<open>
  Two fragments of the first batch at \<open>x = 0\<close> and \<open>x = 5\<close>, two of the second at
  \<open>x = 5.1\<close> and \<open>x = 0.1\<close>: each fragment has one partner. Fragments of the first batch
  at \<open>x = 0\<close> and \<open>x = 100\<close>, of the second at \<open>x = 0\<close>, \<open>50\<close> and \<open>60\<close>: the pairs that
  are best for both sides with a count of zero do not reach \<open>ntol\<close>, and the one
  returned pair is unique.
\<close>

lemma get_temporal_overlapped_pairs_one_partner_each:
  "get_temporal_overlapped_pairs
     [([(Some 0, Some 0, Some 0), (Some 0, Some 0, Some 0)], 1),
      ([(Some 5, Some 0, Some 0), (Some 5, Some 0, Some 0)], 2)]
     [([(Some (51 / 10), Some 0, Some 0), (Some (51 / 10), Some 0, Some 0)], 3),
      ([(Some (1 / 10), Some 0, Some 0), (Some (1 / 10), Some 0, Some 0)], 4)]
     2 2 1 Conn = Inr [(0, 1), (1, 0)]
   \<and> \<not> tied Conn 2 2 1
     [([(Some 0, Some 0, Some 0), (Some 0, Some 0, Some 0)], 1),
      ([(Some 5, Some 0, Some 0), (Some 5, Some 0, Some 0)], 2)]
     [([(Some (51 / 10), Some 0, Some 0), (Some (51 / 10), Some 0, Some 0)], 3),
      ([(Some (1 / 10), Some 0, Some 0), (Some (1 / 10), Some 0, Some 0)], 4)]"
  by code_simp

lemma get_temporal_overlapped_pairs_unmatched_fragments:
  "get_temporal_overlapped_pairs
     [([(Some 0, Some 0, Some 0), (Some 0, Some 0, Some 0)], 1),
      ([(Some 100, Some 0, Some 0), (Some 100, Some 0, Some 0)], 2)]
     [([(Some 0, Some 0, Some 0), (Some 0, Some 0, Some 0)], 3),
      ([(Some 50, Some 0, Some 0), (Some 50, Some 0, Some 0)], 4),
      ([(Some 60, Some 0, Some 0), (Some 60, Some 0, Some 0)], 5)]
     2 2 1 Conn = Inr [(0, 0)]
   \<and> \<not> tied Conn 2 2 1
     [([(Some 0, Some 0, Some 0), (Some 0, Some 0, Some 0)], 1),
      ([(Some 100, Some 0, Some 0), (Some 100, Some 0, Some 0)], 2)]
     [([(Some 0, Some 0, Some 0), (Some 0, Some 0, Some 0)], 3),
      ([(Some 50, Some 0, Some 0), (Some 50, Some 0, Some 0)], 4),
      ([(Some 60, Some 0, Some 0), (Some 60, Some 0, Some 0)], 5)]"
  by code_simp

text \<open>
  Claim C6 says that with a uniqueness policy every fragment index of either batch
  occurs in at most one returned pair, and that a pair is returned only if it is the
  best match from both perspectives. The source does the second
  (\<open>get_temporal_overlapped_pairs_linked\<close>) but not the first: the masks keep every
  pair whose score is close to the best of its row and of its column, and nothing
  chooses among them, so when two fragments of one batch match a fragment of the other
  equally well, both pairs are returned. Below, the fragment of the first batch lies
  half a unit from each of the two fragments of the second batch at both offsets of
  the window: both policies return the pairs \<open>(0, 0)\<close> and \<open>(0, 1)\<close>, and fragment
  \<open>0\<close> of the first batch has two matches.
\<close>

theorem get_temporal_overlapped_pairs_keeps_tied_pairs:
  "get_temporal_overlapped_pairs
     [([(Some 0, Some 0, Some 0), (Some 0, Some 0, Some 0)], 1)]
     [([(Some (1 / 2), Some 0, Some 0), (Some (1 / 2), Some 0, Some 0)], 1),
      ([(Some (- 1 / 2), Some 0, Some 0), (Some (- 1 / 2), Some 0, Some 0)], 1)]
     2 2 1 Conn = Inr [(0, 0), (0, 1)]
   \<and> get_temporal_overlapped_pairs
     [([(Some 0, Some 0, Some 0), (Some 0, Some 0, Some 0)], 1)]
     [([(Some (1 / 2), Some 0, Some 0), (Some (1 / 2), Some 0, Some 0)], 1),
      ([(Some (- 1 / 2), Some 0, Some 0), (Some (- 1 / 2), Some 0, Some 0)], 1)]
     2 2 1 Dist = Inr [(0, 0), (0, 1)]
   \<and> \<not> one_match_per_fragment [(0, 0), (0, 1)]"
  by code_simp

section \<open>Stitching batches: \<open>resolve_temporal_overlap\<close>\<close>

text \<open>
  \<^verbatim>\<open>
  def resolve_temporal_overlap(trajectory_batches, lag, ntol, rtol):
      extended, fragments = [], []
      t0_extended, t0_fragments = [], []
      previous_pairs = np.empty((0, 2), dtype=int)
      for i, b1 in enumerate(trajectory_batches[1:]):
          new_extended = []
          new_t0_extended = []
          b0 = trajectory_batches[i]
          pairs_extend = get_temporal_overlapped_pairs(extended, b1, lag, ntol, rtol)
          ne_pe_indices = []
          if len(extended) > 0:
              new_extended += [
                  (np.concatenate((extended[pe][0][:-lag], b1[p1][0]), axis=0),
                   extended[pe][1] + b1[p1][1]) for pe, p1 in pairs_extend]
              new_t0_extended += [t0_extended[pe] for pe, p1 in pairs_extend]
              ne_pe_indices = np.setdiff1d(
                  np.arange(len(extended)), pairs_extend.T[0])
              fragments    += [extended[idx]    for idx in ne_pe_indices]
              t0_fragments += [t0_extended[idx] for idx in ne_pe_indices]
          pne_indices = np.setdiff1d(np.arange(len(b0)), previous_pairs.T[1])
          pne_trajs = [b0[ni] for ni in pne_indices]
          indice_not_extended = np.setdiff1d(np.arange(len(b1)), pairs_extend.T[1])
          b1_not_extended = [b1[idx] for idx in indice_not_extended]
          pairs_new = get_temporal_overlapped_pairs(
              pne_trajs, b1_not_extended, lag, ntol, rtol)
          remap = np.arange(len(b1))[indice_not_extended]
          pairs_new[:, 1] = remap[pairs_new[:, 1]]
          new_extended += [
              (np.concatenate((pne_trajs[pn][0][:-lag], b1[p1][0]), axis=0),
               pne_trajs[pn][1] + b1[p1][1]) for pn, p1 in pairs_new]
          new_t0_extended += [i * lag  for _ in pairs_new]
          ne_ne_indices = np.setdiff1d(np.arange(len(pne_trajs)), pairs_new.T[0])
          fragments    += [pne_trajs[idx] for idx in ne_ne_indices]
          t0_fragments += [i * lag        for _   in ne_ne_indices]
          previous_pairs = np.vstack((pairs_extend, pairs_new))
          t0_extended = new_t0_extended
          extended = new_extended
      b0 = trajectory_batches[-2]
      pne_indices = np.setdiff1d(np.arange(len(b0)), previous_pairs.T[1])
      pne_trajs = [b0[ni] for ni in pne_indices]
      fragments += pne_trajs
      t0_fragments += [(len(trajectory_batches)-1) * lag for _ in pne_trajs]
      return extended + fragments, t0_extended + t0_fragments
  \<close>
  The variables the loop carries are the fields of \<open>stitch_state\<close>; \<open>stitch_step\<close> is the
  loop body for the triple \<open>(i, b0, b1)\<close> and \<open>stitch_loop\<close> the loop. The calls of
  \<open>get_temporal_overlapped_pairs\<close> use the default policy \<open>'conn'\<close>.
  \<open>setdiff1d_arange n xs\<close> is \<open>np.setdiff1d(np.arange(n), xs)\<close>, \<open>drop_lag\<close> the slice
  \<open>[:-lag]\<close> (empty when \<open>lag = 0\<close>), \<open>extend_traj\<close> the concatenation with the summed
  error. The indices read from \<open>extended\<close>, \<open>b0\<close> and \<open>b1\<close> come from the pairs and from
  \<open>setdiff1d\<close>, so they are in range. \<open>trajectory_batches[-2]\<close> raises \<open>IndexError\<close>
  when there are fewer than two batches.
\<close>

record stitch_state =
  extended :: "traj list"
  t0_extended :: "nat list"
  fragments :: "traj list"
  t0_fragments :: "nat list"
  previous_pairs :: "(nat \<times> nat) list"

definition setdiff1d_arange :: "nat \<Rightarrow> nat list \<Rightarrow> nat list" where
  "setdiff1d_arange n xs = filter (\<lambda>k. k \<notin> set xs) [0..<n]"

definition drop_lag :: "nat \<Rightarrow> 'a list \<Rightarrow> 'a list" where
  "drop_lag lag a = (if lag = 0 then [] else take (length a - lag) a)"

definition extend_traj :: "nat \<Rightarrow> traj \<Rightarrow> traj \<Rightarrow> traj" where
  "extend_traj lag t1 t2 = (drop_lag lag (fst t1) @ fst t2, snd t1 + snd t2)"

definition stitch_step ::
  "nat \<Rightarrow> int \<Rightarrow> real \<Rightarrow> nat \<times> traj list \<times> traj list \<Rightarrow> stitch_state \<Rightarrow> error + stitch_state" where
  "stitch_step lag ntol rtol ib st =
     (case ib of (i, b0, b1) \<Rightarrow>
      (case get_temporal_overlapped_pairs (extended st) b1 lag ntol rtol Conn of
         Inl e \<Rightarrow> Inl e
       | Inr pairs_extend \<Rightarrow>
          (let was_extended = (0 < length (extended st));
               new_extended =
                 (if was_extended
                  then map (\<lambda>(pe, p1). extend_traj lag (extended st ! pe) (b1 ! p1)) pairs_extend
                  else []);
               new_t0_extended =
                 (if was_extended then map (\<lambda>(pe, p1). t0_extended st ! pe) pairs_extend else []);
               ne_pe_indices =
                 (if was_extended
                  then setdiff1d_arange (length (extended st)) (map fst pairs_extend) else []);
               fragments1 = fragments st @ map (\<lambda>idx. extended st ! idx) ne_pe_indices;
               t0_fragments1 = t0_fragments st @ map (\<lambda>idx. t0_extended st ! idx) ne_pe_indices;
               pne_indices = setdiff1d_arange (length b0) (map snd (previous_pairs st));
               pne_trajs = map (\<lambda>ni. b0 ! ni) pne_indices;
               indice_not_extended = setdiff1d_arange (length b1) (map snd pairs_extend);
               b1_not_extended = map (\<lambda>idx. b1 ! idx) indice_not_extended
           in case get_temporal_overlapped_pairs pne_trajs b1_not_extended lag ntol rtol Conn of
                Inl e \<Rightarrow> Inl e
              | Inr pairs_new0 \<Rightarrow>
                 (let remap = indice_not_extended;
                      pairs_new = map (\<lambda>(pn, p1). (pn, remap ! p1)) pairs_new0;
                      new_extended2 = new_extended
                        @ map (\<lambda>(pn, p1). extend_traj lag (pne_trajs ! pn) (b1 ! p1)) pairs_new;
                      new_t0_extended2 = new_t0_extended @ map (\<lambda>_. i * lag) pairs_new;
                      ne_ne_indices = setdiff1d_arange (length pne_trajs) (map fst pairs_new)
                  in Inr \<lparr>extended = new_extended2,
                          t0_extended = new_t0_extended2,
                          fragments = fragments1 @ map (\<lambda>idx. pne_trajs ! idx) ne_ne_indices,
                          t0_fragments = t0_fragments1 @ map (\<lambda>_. i * lag) ne_ne_indices,
                          previous_pairs = pairs_extend @ pairs_new\<rparr>))))"

fun stitch_loop ::
  "nat \<Rightarrow> int \<Rightarrow> real \<Rightarrow> (nat \<times> traj list \<times> traj list) list \<Rightarrow> stitch_state \<Rightarrow> error + stitch_state" where
  "stitch_loop lag ntol rtol [] st = Inr st"
| "stitch_loop lag ntol rtol (ib # ibs) st =
     (case stitch_step lag ntol rtol ib st of
        Inl e \<Rightarrow> Inl e
      | Inr st' \<Rightarrow> stitch_loop lag ntol rtol ibs st')"

definition resolve_temporal_overlap ::
  "traj list list \<Rightarrow> nat \<Rightarrow> int \<Rightarrow> real \<Rightarrow> error + traj list \<times> nat list" where
  "resolve_temporal_overlap trajectory_batches lag ntol rtol =
     (let n = length trajectory_batches;
          init = \<lparr>extended = [], t0_extended = [], fragments = [], t0_fragments = [],
                  previous_pairs = []\<rparr>
      in case stitch_loop lag ntol rtol
                (zip [0..<n - 1] (zip trajectory_batches (tl trajectory_batches))) init of
           Inl e \<Rightarrow> Inl e
         | Inr st \<Rightarrow>
             if n < 2 then Inl IndexError
             else
               (let b0 = trajectory_batches ! (n - 2);
                    pne_indices = setdiff1d_arange (length b0) (map snd (previous_pairs st));
                    pne_trajs = map (\<lambda>ni. b0 ! ni) pne_indices
                in Inr (extended st @ fragments st @ pne_trajs,
                        t0_extended st @ t0_fragments st @ map (\<lambda>_. (n - 1) * lag) pne_trajs)))"

text \<open>
  A position with no missing coordinate.
\<close>

definition present :: "real \<times> real \<times> real \<Rightarrow> point" where
  "present c = (case c of (x, y, z) \<Rightarrow> (Some x, Some y, Some z))"

lemma sq_dist_present_self: "sq_dist (present c) (present c) = Some 0"
  by (cases c) (simp add: present_def sq_dist_def fl_op_def fl_square_def)

lemma isclose_refl: "isclose (Some x) (Some x)"
  by (simp add: isclose_def)

lemma nonzero2_single_True: "nonzero2 [[True]] = [(0, 0)]"
  by (simp add: nonzero2_def)

lemma get_temporal_overlapped_pairs_no_first:
  "get_temporal_overlapped_pairs [] b lag ntol rtol u = Inr []"
  by (simp add: get_temporal_overlapped_pairs_def nonzero2_def)

lemma lag_dist_same_window:
  assumes "tail_rows lag a = map present cs" and "take lag b = map present cs"
    and "length cs = lag"
  shows "lag_dist lag a b = Inr (replicate lag (Some 0))"
proof -
  have "map (\<lambda>(p, q). sq_dist p q) (zip (map present cs) (map present cs))
        = replicate (length cs) (Some 0)"
    by (induction cs) (simp_all add: sq_dist_present_self)
  then show ?thesis
    using assms by (simp add: lag_dist_def broadcast_rows_def assign_row_def)
qed

lemma get_temporal_overlapped_pairs_same_window:
  assumes "tail_rows lag a = map present cs" and "take lag b = map present cs"
    and "length cs = lag" and "ntol \<le> int lag" and "0 < rtol"
  shows "get_temporal_overlapped_pairs [(a, e)] [(b, e')] lag ntol rtol Conn = Inr [(0, 0)]"
proof -
  have "filter (\<lambda>x. fl_lt x (rtol ^ 2)) (replicate lag (Some 0)) = replicate lag (Some 0)"
    using assms(5) by (simp add: fl_lt_def)
  then show ?thesis
    using assms(4) lag_dist_same_window [OF assms(1-3)]
    by (simp add: get_temporal_overlapped_pairs_def Let_def unique_mask_def both_best_mask_def
        nan_reduce_def nan_best_def isclose_refl nonzero2_single_True)
qed

lemma setdiff1d_arange_simps:
  "setdiff1d_arange (Suc 0) [] = [0]" "setdiff1d_arange (Suc 0) [0] = []"
  "setdiff1d_arange 0 xs = []"
  by (simp_all add: setdiff1d_arange_def)

lemma upt_windows:
  "[0..<6] = [0, 1, 2, 3, 4, 5]" "[3..<9] = [3, 4, 5, 6, 7, 8]"
  "[6..<12] = [6, 7, 8, 9, 10, 11]" "[3..<6] = [3, 4, 5]" "[6..<9] = [6, 7, 8]"
  "[0..<9] = [0, 1, 2, 3, 4, 5, 6, 7, 8]"
  "[0..<12] = [0, 1, 2, 3, 4, 5, 6, 7, 8, 9, 10, 11]"
  by code_simp+

lemma stitch_step_start_single:
  assumes "get_temporal_overlapped_pairs [ta] [tb] lag ntol rtol Conn = Inr [(0, 0)]"
  shows "stitch_step lag ntol rtol (i, [ta], [tb])
           \<lparr>extended = [], t0_extended = [], fragments = fs, t0_fragments = tfs,
            previous_pairs = []\<rparr>
         = Inr \<lparr>extended = [extend_traj lag ta tb], t0_extended = [i * lag],
                 fragments = fs, t0_fragments = tfs, previous_pairs = [(0, 0)]\<rparr>"
  using assms
  by (simp add: stitch_step_def get_temporal_overlapped_pairs_no_first setdiff1d_arange_simps)

lemma stitch_step_extend_single:
  assumes "get_temporal_overlapped_pairs [ta] [tb] lag ntol rtol Conn = Inr [(0, 0)]"
  shows "stitch_step lag ntol rtol (i, [t0], [tb])
           \<lparr>extended = [ta], t0_extended = [t], fragments = fs, t0_fragments = tfs,
            previous_pairs = [(k, 0)]\<rparr>
         = Inr \<lparr>extended = [extend_traj lag ta tb], t0_extended = [t],
                 fragments = fs, t0_fragments = tfs, previous_pairs = [(0, 0)]\<rparr>"
  using assms
  by (simp add: stitch_step_def get_temporal_overlapped_pairs_no_first setdiff1d_arange_simps)

lemma resolve_three_stitched:
  fixes X :: "nat \<Rightarrow> real \<times> real \<times> real"
  shows "resolve_temporal_overlap
     [[(map (present \<circ> X) [0..<6], e0)], [(map (present \<circ> X) [3..<9], e1)],
      [(map (present \<circ> X) [6..<12], e2)]] 3 2 1
   = Inr ([(map (present \<circ> X) [0..<12], e0 + e1 + e2)], [0])"
proof -
  define f0 where "f0 = map (present \<circ> X) [0..<6]"
  define f1 where "f1 = map (present \<circ> X) [3..<9]"
  define f2 where "f2 = map (present \<circ> X) [6..<12]"
  define f01 where "f01 = map (present \<circ> X) [0..<9]"
  define f012 where "f012 = map (present \<circ> X) [0..<12]"
  have a1: "tail_rows 3 f0 = map present (map X [3..<6])"
    by (simp add: f0_def tail_rows_def upt_windows)
  have b1: "take 3 f1 = map present (map X [3..<6])"
    by (simp add: f1_def upt_windows)
  have m1: "get_temporal_overlapped_pairs [(f0, e0)] [(f1, e1)] 3 2 1 Conn = Inr [(0, 0)]"
    by (rule get_temporal_overlapped_pairs_same_window [OF a1 b1]) simp_all
  have c1: "extend_traj 3 (f0, e0) (f1, e1) = (f01, e0 + e1)"
    by (simp add: extend_traj_def drop_lag_def f0_def f1_def f01_def upt_windows)
  have a2: "tail_rows 3 f01 = map present (map X [6..<9])"
    by (simp add: f01_def tail_rows_def upt_windows)
  have b2: "take 3 f2 = map present (map X [6..<9])"
    by (simp add: f2_def upt_windows)
  have m2: "get_temporal_overlapped_pairs [(f01, e0 + e1)] [(f2, e2)] 3 2 1 Conn = Inr [(0, 0)]"
    by (rule get_temporal_overlapped_pairs_same_window [OF a2 b2]) simp_all
  have c2: "extend_traj 3 (f01, e0 + e1) (f2, e2) = (f012, e0 + e1 + e2)"
    by (simp add: extend_traj_def drop_lag_def f01_def f2_def f012_def upt_windows)
  have u: "[0..<3 - 1] = [0, 1]" by code_simp
  have z: "zip [0..<length [[(f0, e0)], [(f1, e1)], [(f2, e2)]] - 1]
             (zip [[(f0, e0)], [(f1, e1)], [(f2, e2)]] (tl [[(f0, e0)], [(f1, e1)], [(f2, e2)]]))
           = [(0, [(f0, e0)], [(f1, e1)]), (1, [(f1, e1)], [(f2, e2)])]"
    using u by simp
  have l: "stitch_loop 3 2 1 [(0, [(f0, e0)], [(f1, e1)]), (1, [(f1, e1)], [(f2, e2)])]
             \<lparr>extended = [], t0_extended = [], fragments = [], t0_fragments = [],
              previous_pairs = []\<rparr>
           = Inr \<lparr>extended = [(f012, e0 + e1 + e2)], t0_extended = [0],
                 fragments = [], t0_fragments = [], previous_pairs = [(0, 0)]\<rparr>"
    by (simp add: stitch_step_start_single [OF m1] c1 stitch_step_extend_single [OF m2] c2)
  have "resolve_temporal_overlap [[(f0, e0)], [(f1, e1)], [(f2, e2)]] 3 2 1
        = Inr ([(f012, e0 + e1 + e2)], [0])"
    unfolding resolve_temporal_overlap_def Let_def z l
    by (simp add: setdiff1d_arange_simps)
  then show ?thesis
    by (simp only: f0_def f1_def f2_def f012_def)
qed

lemma fill_hole_1d_all_valid:
  assumes "\<forall>b\<in>set f. b"
  shows "fill_hole_1d f sz = f"
proof (rule nth_equalityI)
  show "length (fill_hole_1d f sz) = length f"
    by (simp add: fill_hole_1d_marked)
next
  fix i assume "i < length (fill_hole_1d f sz)"
  then have i: "i < length f" by (simp add: fill_hole_1d_marked)
  then have "f ! i" using assms nth_mem by blast
  then show "fill_hole_1d f sz ! i = f ! i"
    using i by (simp add: fill_hole_1d_marked nth_fill_marked)
qed

lemma interpolate_dims_nothing_missing:
  assumes "xp \<noteq> []"
  shows "interpolate_dims coordinates head_idx [] xp ds result = Inr result"
  using assms by (induction ds) (simp_all add: interpolate_dim_def np_interp_def)

lemma interpolate_nan_all_present:
  assumes "ps \<noteq> []" and "\<forall>p\<in>set ps. \<exists>c. p = present c"
  shows "interpolate_nan ps = Inr ps"
proof -
  let ?n = "length ps"
  let ?is_nan = "map (\<lambda>(x, y, z). x = None) ps"
  obtain m where n: "?n = Suc m" using assms(1) by (cases ps) auto
  have nn: "\<not> ?is_nan ! i" if "i < ?n" for i
  proof -
    have "ps ! i \<in> set ps" using that by simp
    then obtain c where "ps ! i = present c" using assms(2) by blast
    then show ?thesis using that by (cases c) (simp add: present_def)
  qed
  have h: "find (\<lambda>i. \<not> ?is_nan ! i) [0..<?n] = Some 0"
    using nn [of 0] n by (simp add: upt_conv_Cons del: upt_Suc)
  have t: "find (\<lambda>i. \<not> ?is_nan ! i) (rev [0..<?n]) = Some m"
    using nn [of m] n by simp
  have e: "filter (\<lambda>k. ?is_nan ! (0 + k)) [0..<length [0..<m + 1]] = []"
    using nn n by (auto simp: filter_empty_conv simp del: upt_Suc)
  have "0 \<in> set (filter (\<lambda>k. \<not> ?is_nan ! (0 + k)) [0..<length [0..<m + 1]])"
    using nn [of 0] n by (simp del: upt_Suc)
  then have ne: "filter (\<lambda>k. \<not> ?is_nan ! (0 + k)) [0..<length [0..<m + 1]] \<noteq> []"
    by (metis empty_iff empty_set)
  have "interpolate_nan ps
        = interpolate_dims ps 0 (filter (\<lambda>k. ?is_nan ! (0 + k)) [0..<length [0..<m + 1]])
            (filter (\<lambda>k. \<not> ?is_nan ! (0 + k)) [0..<length [0..<m + 1]]) [0, 1, 2] ps"
    unfolding interpolate_nan_def Let_def h t option.case using assms(1) by simp
  also have "\<dots> = Inr ps"
    unfolding e by (rule interpolate_dims_nothing_missing [OF ne])
  finally show ?thesis .
qed

lemma convert_traj_format_all_present:
  assumes "ps \<noteq> []" and "\<forall>p\<in>set ps. \<exists>c. p = present c"
  shows "convert_traj_format (ps, e) t0
         = Inr [(map (\<lambda>t. t0 + int t) [0..<length ps], ps)]"
proof -
  have v: "map (\<lambda>(x, y, z). x \<noteq> None) ps = replicate (length ps) True"
    using assms(2) by (intro replicate_eqI) (auto simp: present_def)
  have f: "fill_hole_1d (replicate (length ps) True) 3 = replicate (length ps) True"
    by (rule fill_hole_1d_all_valid) simp
  have m: "map (\<lambda>(v, c). if v then c else (None, None, None))
             (zip (replicate (length ps) True) ps) = ps"
    by (intro nth_equalityI) simp_all
  have k: "filter (\<lambda>(t, (x, y, z)). \<not> (x = None \<or> y = None \<or> z = None)) (zip [0..<length ps] ps)
           = zip [0..<length ps] ps"
    using assms(2) by (auto simp: filter_id_conv present_def dest!: set_zip_rightD)
  have t: "map (\<lambda>(t, coord). t0 + int t) (zip [0..<length ps] ps)
           = map (\<lambda>t. t0 + int t) [0..<length ps]"
    by (intro nth_equalityI) simp_all
  show ?thesis
    unfolding convert_traj_format_def Let_def fst_conv v f interpolate_nan_all_present [OF assms]
      sum.case m k t
    by simp
qed

text \<open>
  Claim C5: three batches of one fragment each, of length 6, starting at frames 0, 3
  and 6, whose positions are identical at every frame they share: the fragment of
  batch \<open>k\<close> holds the positions \<open>X (3 k), ..., X (3 k + 5)\<close> of one object with track
  \<open>X\<close> (an object at rest is the case of a constant \<open>X\<close>). With \<open>lag = 3\<close>, \<open>ntol = 2\<close>
  and \<open>rtol = 1\<close>, \<open>resolve_temporal_overlap\<close> returns a single trajectory with start
  frame 0 and the 12 positions \<open>X 0, ..., X 11\<close>, and \<open>convert_traj_format\<close> gives it the
  frame numbers \<open>0, ..., 11\<close>, each once.
\<close>

theorem resolve_temporal_overlap_three_batches:
  fixes X :: "nat \<Rightarrow> real \<times> real \<times> real"
  shows "resolve_temporal_overlap
     [[(map (present \<circ> X) [0..<6], e0)], [(map (present \<circ> X) [3..<9], e1)],
      [(map (present \<circ> X) [6..<12], e2)]] 3 2 1
   = Inr ([(map (present \<circ> X) [0..<12], e0 + e1 + e2)], [0])
   \<and> convert_traj_format (map (present \<circ> X) [0..<12], e0 + e1 + e2) 0
       = Inr [(map int [0..<12], map (present \<circ> X) [0..<12])]
   \<and> length (map (present \<circ> X) [0..<12]) = 12 \<and> distinct (map int [0..<12])"
proof -
  have "map (present \<circ> X) [0..<12] \<noteq> []"
    by (simp add: upt_windows)
  moreover have "\<forall>p\<in>set (map (present \<circ> X) [0..<12]). \<exists>c. p = present c"
    unfolding set_map by (intro ballI) (metis comp_apply imageE)
  ultimately have "convert_traj_format (map (present \<circ> X) [0..<12], e0 + e1 + e2) 0
      = Inr [(map (\<lambda>t. 0 + int t) [0..<length (map (present \<circ> X) [0..<12])],
              map (present \<circ> X) [0..<12])]"
    by (rule convert_traj_format_all_present)
  then have "convert_traj_format (map (present \<circ> X) [0..<12], e0 + e1 + e2) 0
      = Inr [(map int [0..<12], map (present \<circ> X) [0..<12])]"
    by simp
  moreover have "distinct (map int [0..<12])"
    by (simp add: distinct_map)
  ultimately show ?thesis
    using resolve_three_stitched [of X e0 e1 e2] by simp
qed

text \<open>
  The case of an object at rest: three fragments that hold the same position at every
  offset are stitched into one trajectory of 12 samples.
\<close>

lemma resolve_temporal_overlap_object_at_rest:
  "resolve_temporal_overlap
     [[(replicate 6 (present c), e0)], [(replicate 6 (present c), e1)],
      [(replicate 6 (present c), e2)]] 3 2 1
   = Inr ([(replicate 12 (present c), e0 + e1 + e2)], [0])"
proof -
  have g: "map (present \<circ> (\<lambda>t. c)) [a..<b] = replicate (b - a) (present c)"
    for a b :: nat
    by (simp add: map_replicate_const o_def)
  have r: "map (present \<circ> (\<lambda>t. c)) [0..<6] = replicate 6 (present c)"
    "map (present \<circ> (\<lambda>t. c)) [3..<9] = replicate 6 (present c)"
    "map (present \<circ> (\<lambda>t. c)) [6..<12] = replicate 6 (present c)"
    "map (present \<circ> (\<lambda>t. c)) [0..<12] = replicate 12 (present c)"
    using g [of 0 6] g [of 3 9] g [of 6 12] g [of 0 12] by simp_all
  show ?thesis
    using resolve_three_stitched [of "\<lambda>t. c" e0 e1 e2] unfolding r .
qed

text \<open>
  Pairs that share a fragment reach the stitching. One fragment in the first batch
  and, in the second, two fragments half a unit to either side of it over the whole
  lag window: \<open>get_temporal_overlapped_pairs\<close> returns both pairs, the fragment of the
  first batch is continued by each fragment of the second, and its first frame is in
  two trajectories of the result.
\<close>

lemma resolve_temporal_overlap_tied_pairs:
  "resolve_temporal_overlap
     [[([(Some 0, Some 0, Some 0), (Some 0, Some 0, Some 0), (Some 0, Some 0, Some 0)], 1)],
      [([(Some (1 / 2), Some 0, Some 0), (Some (1 / 2), Some 0, Some 0),
         (Some (1 / 2), Some 0, Some 0)], 1),
       ([(Some (- 1 / 2), Some 0, Some 0), (Some (- 1 / 2), Some 0, Some 0),
         (Some (- 1 / 2), Some 0, Some 0)], 1)]]
     2 2 1
   = Inr ([([(Some 0, Some 0, Some 0), (Some (1 / 2), Some 0, Some 0),
             (Some (1 / 2), Some 0, Some 0), (Some (1 / 2), Some 0, Some 0)], 2),
           ([(Some 0, Some 0, Some 0), (Some (- 1 / 2), Some 0, Some 0),
             (Some (- 1 / 2), Some 0, Some 0), (Some (- 1 / 2), Some 0, Some 0)], 2)],
          [0, 0])"
  by code_simp

section \<open>Overlap resolution: \<open>solve_overlap_lp\<close> and \<open>solve_overlap_lp_fast\<close>\<close>

text \<open>
  \<^verbatim>\<open>
  def solve_overlap_lp(points, errors, diameter):
      N, dim = points.shape
      dists = pdist(points)
      if np.all(dists > diameter):  # do not optimise if no overlap
          return points
      dist_mat = squareform(dists)  # (N, N)
      if N <= 1:
          return points
      for n_target in range(N, 1, -1):
          model = Model(name="Overlap Model")
          x_vars = [model.binary_var(name=f"x_{i}") for i in range(N)]
          # total number == n_target
          model.add_constraint(model.sum(x_vars) == n_target)
          # no overlap
          for i, j in product(np.arange(N), repeat=2):
              if i != j:
                  model.add_constraint(
                      (dist_mat[i, j] - diameter) * x_vars[i] * x_vars[j] >= 0)
          objective = model.sum(x * e for x, e in zip(x_vars, errors))
          model.minimize(objective)
          is_successful = model.solve()
          if is_successful:
              indices = np.array([x.solution_value for x in x_vars], dtype=bool)
              return points[indices]
      return points[np.argmin(errors)][np.newaxis, :]
  \<close>
  A point is a list of real coordinates. \<open>pdist\<close> and \<open>squareform\<close> are scipy's
  condensed and square matrices of Euclidean distances; \<open>squareform\<close> of the empty
  condensed vector, which is what \<open>pdist\<close> gives for no points as well as for one, is a
  \<open>1 \<times> 1\<close> matrix. The optimisation problem that
  the source hands to the backend is the record \<open>overlap_model\<close>: the number of binary
  variables, the required number of chosen variables, the coefficients
  \<open>dist_mat[i, j] - diameter\<close> of the pairwise constraints, and the costs of the
  objective. \<open>feasible m x\<close> says that the assignment \<open>x\<close> satisfies the constraints of
  \<open>m\<close>. The backend is a parameter \<open>solve\<close>, which returns an assignment or \<open>None\<close> for
  infeasibility; \<open>sound_solver\<close> is what is assumed of it: an assignment it returns
  satisfies the constraints. \<open>complete_solver\<close> is the converse contract: it reports
  infeasibility only of a model that no assignment satisfies. \<open>select_points\<close> is the boolean indexing
  \<open>points[indices]\<close>, \<open>ladder\<close> the loop over the target sizes \<open>N, N - 1, ..., 2\<close>.
\<close>

definition euclidean :: "real list \<Rightarrow> real list \<Rightarrow> real" where
  "euclidean a b = sqrt (sum_list (map (\<lambda>(x, y). (x - y)\<^sup>2) (zip a b)))"

definition pdist :: "real list list \<Rightarrow> real list" where
  "pdist points =
     concat (map (\<lambda>i. map (\<lambda>j. euclidean (points ! i) (points ! j)) [i + 1..<length points])
               [0..<length points])"

definition squareform :: "real list list \<Rightarrow> real list list" where
  "squareform points =
     (if points = [] then [[0]]
      else map (\<lambda>i. map (\<lambda>j. if i = j then 0 else euclidean (points ! i) (points ! j))
                       [0..<length points]) [0..<length points])"

record overlap_model =
  n_vars :: nat
  n_target :: nat
  coeffs :: "real list list"
  costs :: "real list"

definition build_model :: "real list list \<Rightarrow> real list \<Rightarrow> real \<Rightarrow> nat \<Rightarrow> overlap_model" where
  "build_model points errors diameter n =
     \<lparr>n_vars = length points,
      n_target = n,
      coeffs = map (map (\<lambda>d. d - diameter)) (squareform points),
      costs = take (length points) errors\<rparr>"

definition feasible :: "overlap_model \<Rightarrow> bool list \<Rightarrow> bool" where
  "feasible m x \<longleftrightarrow>
     length x = n_vars m
     \<and> length (filter (\<lambda>b. b) x) = n_target m
     \<and> list_all (\<lambda>i. list_all (\<lambda>j. i = j
            \<or> 0 \<le> coeffs m ! i ! j * of_bool (x ! i) * of_bool (x ! j))
          [0..<n_vars m]) [0..<n_vars m]"

definition sound_solver :: "(overlap_model \<Rightarrow> bool list option) \<Rightarrow> bool" where
  "sound_solver solve \<longleftrightarrow> (\<forall>m x. solve m = Some x \<longrightarrow> feasible m x)"

definition complete_solver :: "(overlap_model \<Rightarrow> bool list option) \<Rightarrow> bool" where
  "complete_solver solve \<longleftrightarrow> (\<forall>m x. solve m = None \<longrightarrow> \<not> feasible m x)"

definition select_points :: "real list list \<Rightarrow> bool list \<Rightarrow> error + real list list" where
  "select_points points indices =
     (if length indices \<noteq> length points then Inl IndexError
      else Inr (map (\<lambda>i. points ! i) (filter (\<lambda>i. indices ! i) [0..<length points])))"

fun ladder ::
  "(overlap_model \<Rightarrow> bool list option) \<Rightarrow> real list list \<Rightarrow> real list \<Rightarrow> real \<Rightarrow> nat list
     \<Rightarrow> (error + real list list) option" where
  "ladder solve points errors diameter [] = None"
| "ladder solve points errors diameter (n # ns) =
     (case solve (build_model points errors diameter n) of
        Some x \<Rightarrow> Some (select_points points x)
      | None \<Rightarrow> ladder solve points errors diameter ns)"

definition solve_overlap_lp ::
  "(overlap_model \<Rightarrow> bool list option) \<Rightarrow> real list list \<Rightarrow> real list \<Rightarrow> real
     \<Rightarrow> error + real list list" where
  "solve_overlap_lp solve points errors diameter =
     (let N = length points; dists = pdist points in
      if list_all (\<lambda>d. d > diameter) dists then Inr points
      else if N \<le> 1 then Inr points
      else
        (case ladder solve points errors diameter (rev [2..<N + 1]) of
           Some r \<Rightarrow> r
         | None \<Rightarrow>
             (case argmin errors of
                Inl e \<Rightarrow> Inl e
              | Inr k \<Rightarrow> if k < N then Inr [points ! k] else Inl IndexError)))"

text \<open>
  \<^verbatim>\<open>
  def solve_overlap_lp_fast(points, errors, diameter):
      N, dim = points.shape
      dists = pdist(points)
      aij = squareform(dists) < diameter
      np.fill_diagonal(aij, 0)
      n_cliques, labels = connected_components(aij, directed=False)
      result = []
      for val in range(n_cliques):
          clique = np.nonzero(labels == val)[0]
          if len(clique) == 1:
              result.append(points[clique])
          else:
              result.append(
                  solve_overlap_lp(points[clique], errors[clique], diameter=diameter))
      return np.concatenate(result, axis=0)
  \<close>
  \<open>proximity\<close> is the matrix \<open>aij\<close>. scipy's \<open>connected_components\<close> is a parameter; what
  is assumed of the labelling it returns for \<open>aij\<close> is \<open>labelling_ok\<close>: one label below
  \<open>n_cliques\<close> for every point, and the same label for two points joined by an edge.
  \<open>solve_clique\<close> is the body of the loop: the fancy indexing \<open>points[clique]\<close>, which
  both branches evaluate, and \<open>errors[clique]\<close> raise \<open>IndexError\<close> on an index out of
  range (so does the call on no points, where \<open>aij\<close> is \<open>1 \<times> 1\<close> and the only label
  belongs to a point that does not exist). \<open>np.concatenate\<close> raises \<open>ValueError\<close> on an
  empty list.
\<close>

definition proximity :: "real list list \<Rightarrow> real \<Rightarrow> bool list list" where
  "proximity points diameter =
     (let dist_mat = squareform points
      in map (\<lambda>i. map (\<lambda>j. i \<noteq> j \<and> dist_mat ! i ! j < diameter) [0..<length dist_mat])
           [0..<length dist_mat])"

definition solve_clique ::
  "(overlap_model \<Rightarrow> bool list option) \<Rightarrow> real list list \<Rightarrow> real list \<Rightarrow> real \<Rightarrow> nat list
     \<Rightarrow> error + real list list" where
  "solve_clique solve points errors diameter clique =
     (if list_ex (\<lambda>i. length points \<le> i) clique then Inl IndexError
      else if length clique = 1 then Inr (map (\<lambda>i. points ! i) clique)
      else if list_ex (\<lambda>i. length errors \<le> i) clique then Inl IndexError
      else solve_overlap_lp solve (map (\<lambda>i. points ! i) clique)
             (map (\<lambda>i. errors ! i) clique) diameter)"

definition solve_overlap_lp_fast ::
  "(overlap_model \<Rightarrow> bool list option) \<Rightarrow> (bool list list \<Rightarrow> nat \<times> nat list)
     \<Rightarrow> real list list \<Rightarrow> real list \<Rightarrow> real \<Rightarrow> error + real list list" where
  "solve_overlap_lp_fast solve connected_components points errors diameter =
     (let aij = proximity points diameter
      in case connected_components aij of
           (n_cliques, labels) \<Rightarrow>
             (case collect (map (\<lambda>val. solve_clique solve points errors diameter
                                       (filter (\<lambda>i. labels ! i = val) [0..<length labels]))
                             [0..<n_cliques]) of
                Inl e \<Rightarrow> Inl e
              | Inr result \<Rightarrow> if result = [] then Inl ValueError else Inr (concat result)))"

definition labelling_ok :: "real list list \<Rightarrow> real \<Rightarrow> nat \<times> nat list \<Rightarrow> bool" where
  "labelling_ok points diameter cl \<longleftrightarrow>
     (case cl of (n_cliques, labels) \<Rightarrow>
        length labels = length points
        \<and> list_all (\<lambda>l. l < n_cliques) labels
        \<and> list_all (\<lambda>i. list_all (\<lambda>j. \<not> proximity points diameter ! i ! j
                                       \<or> labels ! i = labels ! j)
                        [0..<length points]) [0..<length points])"

text \<open>
  \<open>separated diameter out\<close>: no two entries of \<open>out\<close> are closer than \<open>diameter\<close>.
\<close>

definition separated :: "real \<Rightarrow> real list list \<Rightarrow> bool" where
  "separated diameter out \<longleftrightarrow>
     (\<forall>a<length out. \<forall>b<length out. a \<noteq> b \<longrightarrow> \<not> euclidean (out ! a) (out ! b) < diameter)"

text \<open>
  A backend by exhaustive search, as an instance of the parameter: among the
  assignments that satisfy the constraints it returns one of least cost.
\<close>

definition brute_solve :: "overlap_model \<Rightarrow> bool list option" where
  "brute_solve m =
     (case filter (feasible m) (List.n_lists (n_vars m) [False, True]) of
        [] \<Rightarrow> None
      | x # xs \<Rightarrow>
          Some (fold (\<lambda>y best. if sum_list (map (\<lambda>(b, e). of_bool b * e) (zip y (costs m)))
                                   < sum_list (map (\<lambda>(b, e). of_bool b * e) (zip best (costs m)))
                                then y else best) xs x))"

lemma euclidean_1d: "euclidean [a] [b] = \<bar>a - b\<bar>"
  by (simp add: euclidean_def)

lemma euclidean_sym: "euclidean a b = euclidean b a"
proof -
  have "map (\<lambda>(x, y). (x - y)\<^sup>2) (zip a b) = map (\<lambda>(x, y). (x - y)\<^sup>2) (zip b a)"
    by (subst zip_commute) (simp add: split_def power2_commute)
  then show ?thesis by (simp add: euclidean_def)
qed

lemma squareform_nth:
  assumes "i < length points" and "j < length points"
  shows "squareform points ! i ! j = (if i = j then 0 else euclidean (points ! i) (points ! j))"
proof -
  have "points \<noteq> []" using assms(1) by auto
  then show ?thesis using assms by (simp add: squareform_def)
qed

lemma proximity_nth:
  assumes "i < length points" and "j < length points"
  shows "proximity points diameter ! i ! j
         \<longleftrightarrow> i \<noteq> j \<and> euclidean (points ! i) (points ! j) < diameter"
proof -
  have "points \<noteq> []" using assms(1) by auto
  then have "length (squareform points) = length points" by (simp add: squareform_def)
  then show ?thesis using assms by (auto simp: proximity_def Let_def squareform_nth)
qed

lemma separated_sorted_wrt:
  "separated diameter out \<longleftrightarrow> sorted_wrt (\<lambda>p q. \<not> euclidean p q < diameter) out"
proof
  assume "separated diameter out"
  then show "sorted_wrt (\<lambda>p q. \<not> euclidean p q < diameter) out"
    unfolding separated_def sorted_wrt_iff_nth_less by auto
next
  assume s: "sorted_wrt (\<lambda>p q. \<not> euclidean p q < diameter) out"
  have "\<not> euclidean (out ! a) (out ! b) < diameter"
    if "a < length out" "b < length out" "a \<noteq> b" for a b
  proof (cases "a < b")
    case True
    then show ?thesis using s that unfolding sorted_wrt_iff_nth_less by blast
  next
    case False
    then have "b < a" using that by simp
    then have "\<not> euclidean (out ! b) (out ! a) < diameter"
      using s that unfolding sorted_wrt_iff_nth_less by blast
    then show ?thesis by (simp add: euclidean_sym)
  qed
  then show "separated diameter out" unfolding separated_def by blast
qed

lemma in_set_pdist:
  "d \<in> set (pdist points)
   \<longleftrightarrow> (\<exists>i j. i < j \<and> j < length points \<and> d = euclidean (points ! i) (points ! j))"
proof
  assume "d \<in> set (pdist points)"
  then obtain i j where "j \<in> set [i + 1..<length points]"
    and d: "d = euclidean (points ! i) (points ! j)"
    by (auto simp: pdist_def)
  then have "i < j \<and> j < length points" by simp
  then show "\<exists>i j. i < j \<and> j < length points \<and> d = euclidean (points ! i) (points ! j)"
    using d by blast
next
  assume "\<exists>i j. i < j \<and> j < length points \<and> d = euclidean (points ! i) (points ! j)"
  then obtain i j where ij: "i < j" "j < length points"
    and d: "d = euclidean (points ! i) (points ! j)"
    by blast
  have "i \<in> set [0..<length points]" "j \<in> set [i + 1..<length points]"
    using ij by simp_all
  then have "d \<in> (\<Union>i\<in>set [0..<length points].
                (\<lambda>j. euclidean (points ! i) (points ! j)) ` set [i + 1..<length points])"
    unfolding d by blast
  then show "d \<in> set (pdist points)"
    by (simp add: pdist_def del: set_upt)
qed

lemma no_overlap_separated:
  assumes "list_all (\<lambda>d. d > diameter) (pdist points)"
  shows "separated diameter points"
  unfolding separated_sorted_wrt sorted_wrt_iff_nth_less
proof (intro allI impI)
  fix i j assume "i < j" "j < length points"
  then have "euclidean (points ! i) (points ! j) \<in> set (pdist points)"
    unfolding in_set_pdist by blast
  then have "diameter < euclidean (points ! i) (points ! j)"
    using assms by (simp add: list_all_iff)
  then show "\<not> euclidean (points ! i) (points ! j) < diameter" by simp
qed

lemma ladder_Some:
  assumes "ladder solve points errors diameter ns = Some r"
  shows "\<exists>n\<in>set ns. \<exists>x. solve (build_model points errors diameter n) = Some x
           \<and> r = select_points points x"
  using assms by (induction ns) (auto split: option.splits)

lemma ladder_None:
  assumes "\<forall>n\<in>set ns. solve (build_model points errors diameter n) = None"
  shows "ladder solve points errors diameter ns = None"
  using assms by (induction ns) simp_all

lemma feasible_select_separated:
  assumes "feasible (build_model points errors diameter n) x"
  shows "\<exists>out. select_points points x = Inr out \<and> separated diameter out
           \<and> set out \<subseteq> set points"
proof -
  let ?N = "length points"
  let ?idx = "filter (\<lambda>i. x ! i) [0..<?N]"
  have len: "length x = ?N"
    using assms by (simp add: feasible_def build_model_def)
  have con: "0 \<le> (squareform points ! i ! j - diameter) * of_bool (x ! i) * of_bool (x ! j)"
    if "i < ?N" "j < ?N" "i \<noteq> j" for i j
  proof -
    let ?m = "build_model points errors diameter n"
    have nv: "n_vars ?m = ?N" by (simp add: build_model_def)
    have "\<forall>i\<in>set [0..<n_vars ?m]. \<forall>j\<in>set [0..<n_vars ?m].
            i = j \<or> 0 \<le> coeffs ?m ! i ! j * of_bool (x ! i) * of_bool (x ! j)"
      using assms unfolding feasible_def list_all_iff by blast
    moreover have "i \<in> set [0..<n_vars ?m]" "j \<in> set [0..<n_vars ?m]"
      using that nv by simp_all
    ultimately have "i = j \<or> 0 \<le> coeffs (build_model points errors diameter n) ! i ! j
             * of_bool (x ! i) * of_bool (x ! j)"
      by blast
    moreover have "coeffs (build_model points errors diameter n) ! i ! j
                   = squareform points ! i ! j - diameter"
    proof -
      have "points \<noteq> []" using that(1) by auto
      then show ?thesis using that by (simp add: build_model_def squareform_def)
    qed
    ultimately show ?thesis using that by simp
  qed
  have far: "\<not> euclidean (points ! i) (points ! j) < diameter"
    if "i \<in> set ?idx" "j \<in> set ?idx" "i < j" for i j
  proof -
    have ij: "i < ?N" "j < ?N" "x ! i" "x ! j" "i \<noteq> j" using that by simp_all
    have "squareform points ! i ! j = euclidean (points ! i) (points ! j)"
      using ij by (simp add: squareform_nth)
    then show ?thesis using con [OF ij(1,2,5)] ij(3,4) by simp
  qed
  have "sorted_wrt (<) ?idx"
    by (rule sorted_wrt_filter) (simp add: sorted_wrt_upt)
  then have "sorted_wrt (\<lambda>i j. \<not> euclidean (points ! i) (points ! j) < diameter) ?idx"
    by (rule sorted_wrt_mono_rel [rotated]) (rule far)
  then have "separated diameter (map (\<lambda>i. points ! i) ?idx)"
    by (simp add: separated_sorted_wrt sorted_wrt_map)
  moreover have "set (map (\<lambda>i. points ! i) ?idx) \<subseteq> set points"
    by auto
  ultimately show ?thesis using len by (simp add: select_points_def)
qed

lemma separated_single: "separated diameter [p]"
  by (simp add: separated_def)

lemma solve_overlap_lp_separated:
  assumes "sound_solver solve" and "length errors = length points"
  shows "\<exists>out. solve_overlap_lp solve points errors diameter = Inr out
           \<and> separated diameter out \<and> set out \<subseteq> set points"
proof (cases "list_all (\<lambda>d. d > diameter) (pdist points)")
  case True
  then show ?thesis
    using no_overlap_separated [OF True] by (simp add: solve_overlap_lp_def)
next
  case False
  have "pdist points \<noteq> []" using False by auto
  then have N: "\<not> length points \<le> 1"
    by (cases points; cases "tl points") (auto simp: pdist_def)
  show ?thesis
  proof (cases "ladder solve points errors diameter (rev [2..<length points + 1])")
    case (Some r)
    from ladder_Some [OF Some] obtain n x where
      "solve (build_model points errors diameter n) = Some x" "r = select_points points x"
      by blast
    moreover then have "feasible (build_model points errors diameter n) x"
      using assms(1) by (simp add: sound_solver_def)
    ultimately show ?thesis
      using feasible_select_separated [of points errors diameter n x] False N Some
      by (simp add: solve_overlap_lp_def)
  next
    case None
    have "errors \<noteq> []" using N assms(2) by auto
    from argmin_least [OF this] obtain k where k: "argmin errors = Inr k" "k < length errors"
      by blast
    then have "solve_overlap_lp solve points errors diameter = Inr [points ! k]"
      using False N None assms(2) by (simp add: solve_overlap_lp_def)
    moreover have "set [points ! k] \<subseteq> set points" using k assms(2) by simp
    ultimately show ?thesis using separated_single by blast
  qed
qed

lemma sorted_wrt_concat_blocks:
  assumes "\<forall>b\<in>set bs. sorted_wrt P b"
    and "sorted_wrt (\<lambda>b c. \<forall>p\<in>set b. \<forall>q\<in>set c. P p q) bs"
  shows "sorted_wrt P (concat bs)"
  using assms by (induction bs) (auto simp: sorted_wrt_append)

lemma solve_clique_separated:
  assumes "sound_solver solve" and "length errors = length points"
    and "\<forall>i\<in>set clique. i < length points"
  shows "\<exists>out. solve_clique solve points errors diameter clique = Inr out
           \<and> separated diameter out \<and> set out \<subseteq> (\<lambda>i. points ! i) ` set clique"
proof (cases "length clique = 1")
  case True
  then obtain i where "clique = [i]" by (cases clique) auto
  then show ?thesis using assms(3) by (simp add: solve_clique_def separated_single)
next
  case False
  have "\<not> list_ex (\<lambda>i. length points \<le> i) clique"
    "\<not> list_ex (\<lambda>i. length errors \<le> i) clique"
    using assms(2,3) by (auto simp: list_ex_iff)
  moreover have "length (map (\<lambda>i. errors ! i) clique) = length (map (\<lambda>i. points ! i) clique)"
    by simp
  note solve_overlap_lp_separated [OF assms(1) this, of diameter]
  ultimately show ?thesis using False by (simp add: solve_clique_def)
qed

lemma solve_overlap_lp_fast_separated:
  assumes "sound_solver solve" and "length errors = length points" and "points \<noteq> []"
    and "labelling_ok points diameter (connected_components (proximity points diameter))"
  shows "\<exists>out. solve_overlap_lp_fast solve connected_components points errors diameter = Inr out
           \<and> separated diameter out"
proof -
  let ?N = "length points"
  obtain n_cliques labels where
    cc: "connected_components (proximity points diameter) = (n_cliques, labels)"
    by (cases "connected_components (proximity points diameter)")
  have len: "length labels = ?N" and lt: "\<forall>l\<in>set labels. l < n_cliques"
    using assms(4) by (simp_all add: cc labelling_ok_def list_all_iff)
  have same: "labels ! i = labels ! j"
    if "i < ?N" "j < ?N" "i \<noteq> j" "euclidean (points ! i) (points ! j) < diameter" for i j
  proof -
    have "\<forall>i\<in>set [0..<?N]. \<forall>j\<in>set [0..<?N].
            \<not> proximity points diameter ! i ! j \<or> labels ! i = labels ! j"
      using assms(4) unfolding cc labelling_ok_def list_all_iff by simp
    moreover have "i \<in> set [0..<?N]" "j \<in> set [0..<?N]" using that by simp_all
    moreover have "proximity points diameter ! i ! j"
      using that by (simp add: proximity_nth)
    ultimately show ?thesis by blast
  qed
  let ?clique = "\<lambda>val. filter (\<lambda>i. labels ! i = val) [0..<length labels]"
  let ?R = "\<lambda>val out. separated diameter out \<and> set out \<subseteq> (\<lambda>i. points ! i) ` set (?clique val)"
  have "\<forall>val\<in>set [0..<n_cliques]. \<exists>out.
          solve_clique solve points errors diameter (?clique val) = Inr out \<and> ?R val out"
  proof
    fix val assume "val \<in> set [0..<n_cliques]"
    have "\<forall>i\<in>set (?clique val). i < ?N" using len by simp
    from solve_clique_separated [OF assms(1,2) this, of diameter]
    show "\<exists>out. solve_clique solve points errors diameter (?clique val) = Inr out \<and> ?R val out"
      by blast
  qed
  from collect_all_Inr [OF this]
  obtain result where
    res: "collect (map (\<lambda>val. solve_clique solve points errors diameter (?clique val))
            [0..<n_cliques]) = Inr result"
    and rel: "list_all2 ?R [0..<n_cliques] result"
    by blast
  have lr: "length result = n_cliques" using rel by (simp add: list_all2_lengthD [symmetric])
  have "labels ! 0 \<in> set labels" using assms(3) len by simp
  then have "0 < n_cliques" using lt by force
  then have ne: "result \<noteq> []" using lr by auto
  have blk: "separated diameter (result ! k)"
    "set (result ! k) \<subseteq> (\<lambda>i. points ! i) ` set (?clique k)" if "k < n_cliques" for k
    using list_all2_nthD [OF rel, of k] that by simp_all
  have "\<forall>b\<in>set result. sorted_wrt (\<lambda>p q. \<not> euclidean p q < diameter) b"
    using blk(1) lr by (auto simp: in_set_conv_nth separated_sorted_wrt)
  moreover have "sorted_wrt (\<lambda>b c. \<forall>p\<in>set b. \<forall>q\<in>set c. \<not> euclidean p q < diameter) result"
    unfolding sorted_wrt_iff_nth_less
  proof (intro allI impI ballI)
    fix k l p q
    assume kl: "k < l" "l < length result" and p: "p \<in> set (result ! k)"
      and q: "q \<in> set (result ! l)"
    from p blk(2) [of k] kl lr obtain i where
      i: "p = points ! i" "i < ?N" "labels ! i = k" using len by auto
    from q blk(2) [of l] kl lr obtain j where
      j: "q = points ! j" "j < ?N" "labels ! j = l" using len by auto
    have "i \<noteq> j" using i j kl by auto
    then show "\<not> euclidean p q < diameter"
      using same [of i j] i j kl by auto
  qed
  ultimately have "separated diameter (concat result)"
    unfolding separated_sorted_wrt by (rule sorted_wrt_concat_blocks)
  then show ?thesis
    using res ne by (simp add: solve_overlap_lp_fast_def cc)
qed

lemma fold_pick_member:
  "fold (\<lambda>y best. if c y < c best then y else best) xs x \<in> set (x # xs)"
  by (induction xs arbitrary: x) (auto split: if_splits)

lemma sound_brute_solve: "sound_solver brute_solve"
proof -
  have "feasible m x" if "brute_solve m = Some x" for m x
  proof -
    let ?c = "\<lambda>y :: bool list. sum_list (map (\<lambda>(b, e). of_bool b * e) (zip y (costs m)))"
    from that obtain y ys where
      f: "filter (feasible m) (List.n_lists (n_vars m) [False, True]) = y # ys"
      and x: "x = fold (\<lambda>y best. if ?c y < ?c best then y else best) ys y"
      by (auto simp: brute_solve_def split: list.splits)
    have "x \<in> set (y # ys)" unfolding x by (rule fold_pick_member)
    then have "x \<in> set (filter (feasible m) (List.n_lists (n_vars m) [False, True]))"
      unfolding f .
    then show ?thesis by simp
  qed
  then show ?thesis unfolding sound_solver_def by blast
qed

text \<open>
  Claim C1: with a backend whose reported solutions satisfy the constraints, and one
  error per point, \<open>solve_overlap_lp\<close> returns (without error) a set of points no two
  of which are closer than \<open>diameter\<close>; this covers the case where the optimisation
  succeeds as well as the early return and the fallback. The same holds for
  \<open>solve_overlap_lp_fast\<close> on a non-empty input when the labelling of the connected
  components gives two points joined by an edge the same label.
\<close>

theorem solve_overlap_lp_no_two_closer_than_diameter:
  assumes "sound_solver solve" and "length errors = length points"
  shows "(\<exists>out. solve_overlap_lp solve points errors diameter = Inr out
            \<and> separated diameter out)
    \<and> (points \<noteq> []
         \<and> labelling_ok points diameter (connected_components (proximity points diameter))
       \<longrightarrow> (\<exists>out. solve_overlap_lp_fast solve connected_components points errors diameter
                     = Inr out \<and> separated diameter out))"
  using solve_overlap_lp_separated [OF assms, of diameter]
    solve_overlap_lp_fast_separated [OF assms, of diameter connected_components]
  by blast

lemma solve_overlap_lp_example:
  "solve_overlap_lp brute_solve [[0], [1 / 2], [10]] [1, 2, 3] 1 = Inr [[0], [10]]"
  by (simp add: solve_overlap_lp_def pdist_def euclidean_1d upt_rec brute_solve_def
      build_model_def squareform_def feasible_def List.n_lists.simps select_points_def)

lemma labelling_example:
  "labelling_ok [[0], [1 / 2], [10]] 1 (2, [0, 0, 1])"
  by (simp add: labelling_ok_def proximity_def squareform_def Let_def euclidean_1d upt_rec)

lemma solve_overlap_lp_example_pair:
  "solve_overlap_lp brute_solve [[0], [1 / 2]] [1, 2] 1 = Inr [[0]]"
  by (simp add: solve_overlap_lp_def pdist_def euclidean_1d upt_rec brute_solve_def
      build_model_def squareform_def feasible_def List.n_lists.simps select_points_def argmin_def)

lemma solve_overlap_lp_fast_example:
  "solve_overlap_lp_fast brute_solve (\<lambda>aij. (2, [0, 0, 1])) [[0], [1 / 2], [10]] [1, 2, 3] 1
   = Inr [[0], [10]]"
proof -
  let ?labels = "[0, 0, 1] :: nat list"
  have c0: "filter (\<lambda>i. ?labels ! i = 0) [0..<length ?labels] = [0, 1]"
    by code_simp
  have c1: "filter (\<lambda>i. ?labels ! i = 1) [0..<length ?labels] = [2]"
    by code_simp
  have s0: "solve_clique brute_solve [[0], [1 / 2], [10]] [1, 2, 3] 1 [0, 1] = Inr [[0]]"
    using solve_overlap_lp_example_pair by (simp add: solve_clique_def)
  have s1: "solve_clique brute_solve [[0], [1 / 2], [10]] [1, 2, 3] 1 [2] = Inr [[10]]"
    by (simp add: solve_clique_def)
  have u: "[0..<2] = [0, 1]" by code_simp
  show ?thesis
    unfolding solve_overlap_lp_fast_def Let_def prod.case u list.map c0 c1 s0 s1
    by simp
qed

theorem solve_overlap_lp_no_two_closer_than_diameter_witness:
  "solve_overlap_lp brute_solve [[0], [1 / 2], [10]] [1, 2, 3] 1 = Inr [[0], [10]]
   \<and> solve_overlap_lp_fast brute_solve (\<lambda>aij. (2, [0, 0, 1])) [[0], [1 / 2], [10]] [1, 2, 3] 1
       = Inr [[0], [10]]
   \<and> separated 1 [[0], [10]]
   \<and> labelling_ok [[0], [1 / 2], [10]] 1 (2, [0, 0, 1])"
proof -
  have l: "length [1, 2, 3 :: real] = length [[0], [1 / 2], [10 :: real]]" by simp
  from solve_overlap_lp_no_two_closer_than_diameter [OF sound_brute_solve l, of 1]
  obtain out where "solve_overlap_lp brute_solve [[0], [1 / 2], [10]] [1, 2, 3] 1 = Inr out"
    "separated 1 out"
    by blast
  then have "separated 1 [[0], [10]]"
    using solve_overlap_lp_example by simp
  then show ?thesis
    using solve_overlap_lp_example solve_overlap_lp_fast_example labelling_example by simp
qed

text \<open>
  On no points \<open>aij\<close> is the \<open>1 \<times> 1\<close> matrix, whose only component has the label \<open>0\<close>
  for a point that does not exist, and \<open>points[clique]\<close> raises.
\<close>

lemma solve_overlap_lp_fast_no_points:
  "solve_overlap_lp_fast solve (\<lambda>aij. (1, [0])) [] errors diameter = Inl IndexError"
  by (simp add: solve_overlap_lp_fast_def proximity_def squareform_def solve_clique_def)

text \<open>
  When every pairwise distance exceeds \<open>diameter\<close>, \<open>solve_overlap_lp\<close> returns its input
  before it builds a model. For such an input with at least two points the model of
  target size \<open>N\<close> has a solution: all the points.
\<close>

lemma solve_overlap_lp_no_overlap:
  assumes "list_all (\<lambda>d. d > diameter) (pdist points)"
  shows "solve_overlap_lp solve points errors diameter = Inr points"
  using assms by (simp add: solve_overlap_lp_def)

lemma all_selected_feasible:
  assumes "list_all (\<lambda>d. d > diameter) (pdist points)"
  shows "feasible (build_model points errors diameter (length points))
           (replicate (length points) True)"
proof -
  let ?N = "length points"
  have far: "diameter < euclidean (points ! i) (points ! j)"
    if "i < ?N" "j < ?N" "i \<noteq> j" for i j
  proof (cases "i < j")
    case True
    then have "euclidean (points ! i) (points ! j) \<in> set (pdist points)"
      using that unfolding in_set_pdist by blast
    then show ?thesis using assms by (simp add: list_all_iff)
  next
    case False
    then have "j < i" using that by simp
    then have "euclidean (points ! j) (points ! i) \<in> set (pdist points)"
      using that unfolding in_set_pdist by blast
    then have "diameter < euclidean (points ! j) (points ! i)"
      using assms by (simp add: list_all_iff)
    then show ?thesis by (simp add: euclidean_sym)
  qed
  have "i = j \<or> 0 \<le> coeffs (build_model points errors diameter ?N) ! i ! j
           * of_bool (replicate ?N True ! i) * of_bool (replicate ?N True ! j)"
    if "i < ?N" "j < ?N" for i j
  proof (cases "i = j")
    case True
    then show ?thesis by simp
  next
    case False
    have "points \<noteq> []" using that(1) by auto
    then have "coeffs (build_model points errors diameter ?N) ! i ! j
          = euclidean (points ! i) (points ! j) - diameter"
      using that False by (simp add: build_model_def squareform_def)
    then show ?thesis using far [OF that False] that by simp
  qed
  then have "list_all (\<lambda>i. list_all (\<lambda>j. i = j
            \<or> 0 \<le> coeffs (build_model points errors diameter ?N) ! i ! j
                 * of_bool (replicate ?N True ! i) * of_bool (replicate ?N True ! j))
          [0..<?N]) [0..<?N]"
    by (simp add: list_all_iff)
  then show ?thesis by (simp add: feasible_def build_model_def)
qed

lemma complete_brute_solve: "complete_solver brute_solve"
proof -
  have "\<not> feasible m x" if "brute_solve m = None" for m x
  proof
    assume f: "feasible m x"
    then have "length x = n_vars m" by (simp add: feasible_def)
    then have "x \<in> set (List.n_lists (n_vars m) [False, True])"
      by (auto simp: set_n_lists)
    then have "x \<in> set (filter (feasible m) (List.n_lists (n_vars m) [False, True]))"
      using f by simp
    moreover have "filter (feasible m) (List.n_lists (n_vars m) [False, True]) = []"
      using that by (simp add: brute_solve_def split: list.splits)
    ultimately show False by simp
  qed
  then show ?thesis unfolding complete_solver_def by blast
qed

text \<open>
  Claim C7: for a non-empty input with one error per point, if the backend reports
  infeasibility at every target size from \<open>N\<close> down to 2, \<open>solve_overlap_lp\<close> returns
  without error exactly one point: the input point at the first index of least
  error. This holds for every backend that reports infeasibility only of models that
  have no solution (\<open>complete_solver\<close>), whatever the distances between the points;
  for a backend that may also give up on a model that has a solution, it holds
  whenever the source reaches the loop over the target sizes, that is when some pair
  of points is not farther apart than \<open>diameter\<close>, and on a single point.
\<close>

theorem solve_overlap_lp_infeasible_fallback:
  assumes "points \<noteq> []" and "length errors = length points"
    and "complete_solver solve
         \<or> length points = 1 \<or> \<not> list_all (\<lambda>d. d > diameter) (pdist points)"
    and "\<forall>n\<in>set [2..<length points + 1]. solve (build_model points errors diameter n) = None"
  shows "\<exists>k. argmin errors = Inr k \<and> k < length points \<and> (\<forall>e\<in>set errors. errors ! k \<le> e)
           \<and> solve_overlap_lp solve points errors diameter = Inr [points ! k]"
proof -
  have "errors \<noteq> []" using assms(1,2) by auto
  from argmin_least [OF this] obtain k where
    k: "argmin errors = Inr k" "k < length errors" "\<forall>e\<in>set errors. errors ! k \<le> e"
    by blast
  have attempted: "length points = 1 \<or> \<not> list_all (\<lambda>d. d > diameter) (pdist points)"
  proof (rule ccontr)
    assume "\<not> (length points = 1 \<or> \<not> list_all (\<lambda>d. d > diameter) (pdist points))"
    then have one: "length points \<noteq> 1" and far: "list_all (\<lambda>d. d > diameter) (pdist points)"
      by simp_all
    have c: "complete_solver solve" using assms(3) one far by blast
    have "length points \<noteq> 0" using assms(1) by simp
    then have "2 \<le> length points" using one by arith
    then have "length points \<in> set [2..<length points + 1]" by simp
    then have "solve (build_model points errors diameter (length points)) = None"
      using assms(4) by blast
    then have "\<not> feasible (build_model points errors diameter (length points))
                 (replicate (length points) True)"
      using c unfolding complete_solver_def by blast
    then show False using all_selected_feasible [OF far] by blast
  qed
  have "solve_overlap_lp solve points errors diameter = Inr [points ! k]"
  proof (cases "length points = 1")
    case True
    then obtain p where p: "points = [p]" by (cases points) auto
    then have "k = 0" using k(2) assms(2) by simp
    then show ?thesis by (simp add: p solve_overlap_lp_def pdist_def)
  next
    case False
    then have far: "\<not> list_all (\<lambda>d. d > diameter) (pdist points)" using attempted by simp
    have N: "\<not> length points \<le> 1" using False assms(1) by (cases points) auto
    have "ladder solve points errors diameter (rev [2..<length points + 1]) = None"
      by (rule ladder_None) (use assms(4) in simp)
    then show ?thesis
      using far N k assms(2) by (simp add: solve_overlap_lp_def)
  qed
  then show ?thesis using k assms(2) by auto
qed

theorem solve_overlap_lp_infeasible_fallback_witness:
  "solve_overlap_lp brute_solve [[0], [1 / 2]] [2, 1] 1 = Inr [[1 / 2]]
   \<and> argmin [2, 1] = Inr 1
   \<and> brute_solve (build_model [[0], [1 / 2]] [2, 1] 1 2) = None"
proof -
  have a: "[[0], [1 / 2 :: real]] \<noteq> []" "length [2, 1 :: real] = length [[0], [1 / 2 :: real]]"
    by simp_all
  have b: "complete_solver brute_solve
           \<or> length [[0], [1 / 2 :: real]] = 1
           \<or> \<not> list_all (\<lambda>d. d > 1) (pdist [[0], [1 / 2]])"
    using complete_brute_solve by simp
  have n: "brute_solve (build_model [[0], [1 / 2]] [2, 1] 1 2) = None"
    by (simp add: brute_solve_def build_model_def squareform_def feasible_def
        List.n_lists.simps euclidean_1d upt_rec)
  have u: "[2..<length [[0], [1 / 2 :: real]] + 1] = [2]" by code_simp
  have c: "\<forall>n\<in>set [2..<length [[0], [1 / 2 :: real]] + 1].
             brute_solve (build_model [[0], [1 / 2]] [2, 1] 1 n) = None"
    unfolding u using n by simp
  from solve_overlap_lp_infeasible_fallback [OF a b c]
  obtain k where k: "argmin [2, 1] = Inr k"
    "solve_overlap_lp brute_solve [[0], [1 / 2]] [2, 1] 1 = Inr [[[0], [1 / 2]] ! k]"
    by blast
  have "argmin [2, 1] = Inr 1" by (simp add: argmin_def upt_rec)
  then show ?thesis using k n by simp
qed

end
